theory Spec2Isabelle
  imports Main "HOL-Library.Word" "HOL-Library.AList"
begin

section \<open>common/types.h\<close>

text \<open>
  The enumerations of \<^verbatim>\<open>types.h\<close>. \<^verbatim>\<open>DataType\<close> shares three names with
  \<^verbatim>\<open>TokenType\<close>; its constructors carry the prefix \<open>DT_\<close>.
\<close>

datatype TokenType =
    IDENTIFIER | INTEGER_LITERAL | STRING_LITERAL | BOOLEAN_LITERAL
  | CREATE | DROP | TABLE | INSERT | INTO | SELECT | FROM | WHERE | VALUES
  | INTEGER | VARCHAR | BOOLEAN
  | PRIMARY | KEY | NOT | NULL_KEYWORD
  | EQUALS | NOT_EQUALS | LESS_THAN | GREATER_THAN | LESS_EQUAL | GREATER_EQUAL
  | SEMICOLON | COMMA | LEFT_PAREN | RIGHT_PAREN | ASTERISK
  | END_OF_FILE | UNKNOWN

datatype DataType = DT_INTEGER | DT_VARCHAR | DT_BOOLEAN

datatype ConstraintType = PRIMARY_KEY | NOT_NULL

text \<open>
  \<^verbatim>\<open>using Value = std::variant<int, std::string, bool>\<close>: the alternatives in the
  order of their indices 0, 1, 2. A C++ \<^verbatim>\<open>int\<close> is a 32-bit word read as signed.
\<close>

datatype Value = VInt "32 word" | VString string | VBool bool

fun index :: "Value \<Rightarrow> nat" where
  "index (VInt _) = 0"
| "index (VString _) = 1"
| "index (VBool _) = 2"

text \<open>
  \<^verbatim>\<open>struct Token\<close>. Line and column are counters that the tokenizer only increments;
  they are modelled as unbounded integers.
\<close>

record Token =
  tok_type :: TokenType
  tok_value :: string
  tok_line :: int
  tok_column :: int

text \<open>The constructor \<^verbatim>\<open>Token(t, v, l = 1, c = 1)\<close> with its default position.\<close>

definition new_Token :: "TokenType \<Rightarrow> string \<Rightarrow> Token" where
  "new_Token t v = \<lparr>tok_type = t, tok_value = v, tok_line = 1, tok_column = 1\<rparr>"

record Column =
  col_name :: string
  col_type :: DataType
  varchar_length :: "32 word"
  is_primary_key :: bool
  is_not_null :: bool

record TableSchema =
  schema_name :: string
  columns :: "Column list"

type_synonym Row = "Value list"

record WhereCondition =
  column_name :: string
  operator_type :: TokenType
  cond_value :: Value

datatype Statement =
    CreateTableStatement string "Column list"
  | DropTableStatement string
  | InsertStatement string "Value list"
  | SelectStatement string bool "WhereCondition option"

text \<open>
  The exceptions the sources throw: \<^verbatim>\<open>Parser::ParseError\<close>, \<^verbatim>\<open>std::runtime_error\<close>
  (both with their message), the two exceptions of \<^verbatim>\<open>std::stoi\<close>, and the one of
  \<^verbatim>\<open>std::get\<close> on a variant.
\<close>

datatype error =
    ParseError string
  | RuntimeError string
  | InvalidArgument
  | OutOfRange
  | BadVariantAccess

section \<open>The C++ library functions the sources call\<close>

subsection \<open>Character classes of the C locale\<close>

definition backslash :: char where
  "backslash = CHR 0x5C"

definition isspace :: "char \<Rightarrow> bool" where
  "isspace c = (c = CHR '' '' \<or> (9 \<le> (of_char c :: nat) \<and> (of_char c :: nat) \<le> 13))"

definition isdigit :: "char \<Rightarrow> bool" where
  "isdigit c = (48 \<le> (of_char c :: nat) \<and> (of_char c :: nat) \<le> 57)"

definition isupper :: "char \<Rightarrow> bool" where
  "isupper c = (65 \<le> (of_char c :: nat) \<and> (of_char c :: nat) \<le> 90)"

definition islower :: "char \<Rightarrow> bool" where
  "islower c = (97 \<le> (of_char c :: nat) \<and> (of_char c :: nat) \<le> 122)"

definition isalpha :: "char \<Rightarrow> bool" where
  "isalpha c = (isupper c \<or> islower c)"

definition isalnum :: "char \<Rightarrow> bool" where
  "isalnum c = (isalpha c \<or> isdigit c)"

definition toupper :: "char \<Rightarrow> char" where
  "toupper c = (if islower c then char_of ((of_char c :: nat) - 32) else c)"

subsection \<open>Decimal output: \<^verbatim>\<open>operator<<\<close> and \<^verbatim>\<open>std::to_string\<close>\<close>

definition digit_char :: "nat \<Rightarrow> char" where
  "digit_char d = char_of (48 + d)"

definition digit_val :: "char \<Rightarrow> nat" where
  "digit_val c = (of_char c :: nat) - 48"

fun string_of_nat :: "nat \<Rightarrow> string" where
  "string_of_nat n =
     (if n < 10 then [digit_char n]
      else string_of_nat (n div 10) @ [digit_char (n mod 10)])"

declare string_of_nat.simps [simp del]

definition string_of_int :: "int \<Rightarrow> string" where
  "string_of_int i =
     (if i < 0 then CHR ''-'' # string_of_nat (nat (- i)) else string_of_nat (nat i))"

subsection \<open>\<^verbatim>\<open>std::stoi\<close>\<close>

text \<open>
  \<^verbatim>\<open>std::stoi(str)\<close> is \<^verbatim>\<open>strtol(str.c_str(), &end, 10)\<close>: the C string ends at the
  first NUL; leading white space is skipped, one sign is read, then the longest run of
  digits. No digit throws \<^verbatim>\<open>std::invalid_argument\<close>; a value outside \<^verbatim>\<open>int\<close> throws
  \<^verbatim>\<open>std::out_of_range\<close>. What follows the digits is ignored.
\<close>

definition c_str :: "string \<Rightarrow> string" where
  "c_str s = takeWhile (\<lambda>c. c \<noteq> CHR 0x00) s"

definition digits_value :: "string \<Rightarrow> nat" where
  "digits_value ds = foldl (\<lambda>a c. 10 * a + digit_val c) 0 ds"

definition stoi :: "string \<Rightarrow> error + 32 word" where
  "stoi str =
     (let s1 = dropWhile isspace (c_str str);
          neg = (s1 \<noteq> [] \<and> hd s1 = CHR ''-'');
          s2 = (if s1 \<noteq> [] \<and> (hd s1 = CHR ''-'' \<or> hd s1 = CHR ''+'') then tl s1 else s1);
          ds = takeWhile isdigit s2;
          v = (if neg then - int (digits_value ds) else int (digits_value ds))
      in if ds = [] then Inl InvalidArgument
         else if v < - (2 ^ 31) \<or> 2 ^ 31 - 1 < v then Inl OutOfRange
         else Inr (word_of_int v))"

subsection \<open>\<^verbatim>\<open>std::getline\<close>\<close>


text \<open>
  The lines a \<^verbatim>\<open>while (std::getline(file, line))\<close> loop sees: the file split at each
  newline; the loop ends when no character is left.
\<close>

fun file_lines :: "string \<Rightarrow> string \<Rightarrow> string list" where
  "file_lines cur [] = (if cur = [] then [] else [cur])"
| "file_lines cur (c # cs) =
     (if c = CHR 0x0A then cur # file_lines [] cs else file_lines (cur @ [c]) cs)"

subsection \<open>Comparison of \<^verbatim>\<open>std::string\<close> and of \<^verbatim>\<open>std::variant\<close>\<close>

text \<open>
  \<^verbatim>\<open>std::string::compare\<close> orders byte-wise (as unsigned bytes), a proper prefix first.
\<close>

fun string_less :: "string \<Rightarrow> string \<Rightarrow> bool" where
  "string_less [] [] = False"
| "string_less [] (y # ys) = True"
| "string_less (x # xs) [] = False"
| "string_less (x # xs) (y # ys) =
     ((of_char x :: nat) < of_char y \<or> (x = y \<and> string_less xs ys))"

text \<open>
  The relational operators of \<^verbatim>\<open>std::variant\<close> throw nothing. \<^verbatim>\<open>==\<close> holds when both
  sides hold the same alternative and equal values. \<^verbatim>\<open><\<close> compares the indices first and
  the held values when the indices agree; \<^verbatim>\<open><=\<close> likewise; \<^verbatim>\<open>>\<close> and \<^verbatim>\<open>>=\<close> are the
  same with the sides exchanged, and \<^verbatim>\<open>!=\<close> is the negation of \<^verbatim>\<open>==\<close>.
\<close>

definition variant_eq :: "Value \<Rightarrow> Value \<Rightarrow> bool" where
  "variant_eq l r = (l = r)"

fun variant_less :: "Value \<Rightarrow> Value \<Rightarrow> bool" where
  "variant_less (VInt a) (VInt b) = (a <s b)"
| "variant_less (VString a) (VString b) = string_less a b"
| "variant_less (VBool a) (VBool b) = (\<not> a \<and> b)"
| "variant_less l r = (index l < index r)"

fun variant_less_eq :: "Value \<Rightarrow> Value \<Rightarrow> bool" where
  "variant_less_eq (VInt a) (VInt b) = (a \<le>s b)"
| "variant_less_eq (VString a) (VString b) = (\<not> string_less b a)"
| "variant_less_eq (VBool a) (VBool b) = (\<not> (a \<and> \<not> b))"
| "variant_less_eq l r = (index l < index r)"

section \<open>parser/tokenizer.cpp\<close>

text \<open>
  The tokenizer moves forward only and reads nothing before \<^verbatim>\<open>current_pos\<close>, so its state
  is the input from \<^verbatim>\<open>current_pos\<close> on, the line and the column. \<^verbatim>\<open>peek\<close> and \<^verbatim>\<open>advance\<close>
  answer NUL at the end of the input.
\<close>

record Tokenizer =
  tz_input :: string
  tz_line :: int
  tz_column :: int

definition new_Tokenizer :: "string \<Rightarrow> Tokenizer" where
  "new_Tokenizer s = \<lparr>tz_input = s, tz_line = 1, tz_column = 1\<rparr>"

definition Tokenizer_keywords :: "string \<Rightarrow> TokenType option" where
  "Tokenizer_keywords = map_of
     [(''CREATE'', CREATE), (''DROP'', DROP), (''TABLE'', TABLE), (''INSERT'', INSERT),
      (''INTO'', INTO), (''SELECT'', SELECT), (''FROM'', FROM), (''WHERE'', WHERE),
      (''VALUES'', VALUES), (''INTEGER'', INTEGER), (''VARCHAR'', VARCHAR),
      (''BOOLEAN'', BOOLEAN), (''PRIMARY'', PRIMARY), (''KEY'', KEY), (''NOT'', NOT),
      (''NULL'', NULL_KEYWORD), (''TRUE'', BOOLEAN_LITERAL), (''FALSE'', BOOLEAN_LITERAL)]"

definition Tokenizer_peek :: "Tokenizer \<Rightarrow> char" where
  "Tokenizer_peek t = (case tz_input t of [] \<Rightarrow> CHR 0x00 | c # cs \<Rightarrow> c)"

definition Tokenizer_advance :: "Tokenizer \<Rightarrow> char \<times> Tokenizer" where
  "Tokenizer_advance t =
     (case tz_input t of
        [] \<Rightarrow> (CHR 0x00, t)
      | c # cs \<Rightarrow>
          (c, if c = CHR 0x0A
              then t\<lparr>tz_input := cs, tz_line := tz_line t + 1, tz_column := 1\<rparr>
              else t\<lparr>tz_input := cs, tz_column := tz_column t + 1\<rparr>))"

lemma Tokenizer_advance_shorter:
  "Tokenizer_peek t \<noteq> CHR 0x00 \<Longrightarrow>
     length (tz_input (snd (Tokenizer_advance t))) < length (tz_input t)"
  by (cases "tz_input t") (auto simp: Tokenizer_peek_def Tokenizer_advance_def)

lemma Tokenizer_advance_not_longer:
  "length (tz_input (snd (Tokenizer_advance t))) \<le> length (tz_input t)"
  by (cases "tz_input t") (auto simp: Tokenizer_advance_def)

function skip_whitespace :: "Tokenizer \<Rightarrow> Tokenizer" where
  "skip_whitespace t =
     (if isspace (Tokenizer_peek t) then skip_whitespace (snd (Tokenizer_advance t)) else t)"
  by pat_completeness auto
termination
proof (relation "measure (\<lambda>t. length (tz_input t))")
  show "wf (measure (\<lambda>t. length (tz_input t)))" by simp
next
  fix t :: Tokenizer
  assume "isspace (Tokenizer_peek t)"
  then have "Tokenizer_peek t \<noteq> CHR 0x00" by (auto simp: isspace_def)
  then show "(snd (Tokenizer_advance t), t) \<in> measure (\<lambda>t. length (tz_input t))"
    using Tokenizer_advance_shorter by simp
qed

declare skip_whitespace.simps [simp del]

text \<open>The loop of \<^verbatim>\<open>skip_comment\<close>, up to the end of the line.\<close>

function skip_comment_loop :: "Tokenizer \<Rightarrow> Tokenizer" where
  "skip_comment_loop t =
     (if Tokenizer_peek t \<noteq> CHR 0x0A \<and> Tokenizer_peek t \<noteq> CHR 0x00
      then skip_comment_loop (snd (Tokenizer_advance t)) else t)"
  by pat_completeness auto
termination
  by (relation "measure (\<lambda>t. length (tz_input t))") (simp_all add: Tokenizer_advance_shorter)

declare skip_comment_loop.simps [simp del]

definition skip_comment :: "Tokenizer \<Rightarrow> Tokenizer" where
  "skip_comment t =
     (if Tokenizer_peek t = CHR ''-'' \<and> 1 < length (tz_input t) \<and> tz_input t ! 1 = CHR ''-''
      then skip_comment_loop t else t)"

definition is_alpha :: "char \<Rightarrow> bool" where
  "is_alpha c = (isalpha c \<or> c = CHR ''_'')"

definition is_digit :: "char \<Rightarrow> bool" where
  "is_digit c = isdigit c"

definition is_alnum :: "char \<Rightarrow> bool" where
  "is_alnum c = (isalnum c \<or> c = CHR ''_'')"

lemma is_alnum_not_NUL: "is_alnum c \<Longrightarrow> c \<noteq> CHR 0x00"
  by (auto simp: is_alnum_def isalnum_def isalpha_def isupper_def islower_def isdigit_def)

lemma is_digit_not_NUL: "is_digit c \<Longrightarrow> c \<noteq> CHR 0x00"
  by (auto simp: is_digit_def isdigit_def)

text \<open>The loop of \<^verbatim>\<open>read_identifier\<close>, with the characters read so far.\<close>

function read_identifier_loop :: "string \<Rightarrow> Tokenizer \<Rightarrow> string \<times> Tokenizer" where
  "read_identifier_loop v t =
     (if is_alnum (Tokenizer_peek t)
      then read_identifier_loop (v @ [fst (Tokenizer_advance t)]) (snd (Tokenizer_advance t))
      else (v, t))"
  by pat_completeness auto
termination
  by (relation "measure (\<lambda>(v, t). length (tz_input t))")
    (simp_all add: Tokenizer_advance_shorter is_alnum_not_NUL)

declare read_identifier_loop.simps [simp del]

definition read_identifier :: "Tokenizer \<Rightarrow> Token \<times> Tokenizer" where
  "read_identifier t =
     (let start_line = tz_line t;
          start_column = tz_column t;
          (v, t') = read_identifier_loop [] t;
          upper_value = map toupper v
      in case Tokenizer_keywords upper_value of
           Some ty \<Rightarrow>
             (\<lparr>tok_type = ty, tok_value = upper_value,
               tok_line = start_line, tok_column = start_column\<rparr>, t')
         | None \<Rightarrow>
             (\<lparr>tok_type = IDENTIFIER, tok_value = v,
               tok_line = start_line, tok_column = start_column\<rparr>, t'))"

function read_number_loop :: "string \<Rightarrow> Tokenizer \<Rightarrow> string \<times> Tokenizer" where
  "read_number_loop v t =
     (if is_digit (Tokenizer_peek t)
      then read_number_loop (v @ [fst (Tokenizer_advance t)]) (snd (Tokenizer_advance t))
      else (v, t))"
  by pat_completeness auto
termination
  by (relation "measure (\<lambda>(v, t). length (tz_input t))")
    (simp_all add: Tokenizer_advance_shorter is_digit_not_NUL)

declare read_number_loop.simps [simp del]

definition read_number :: "Tokenizer \<Rightarrow> Token \<times> Tokenizer" where
  "read_number t =
     (let (v, t') = read_number_loop [] t
      in (\<lparr>tok_type = INTEGER_LITERAL, tok_value = v,
            tok_line = tz_line t, tok_column = tz_column t\<rparr>, t'))"

text \<open>The character an escape sequence of a string literal stands for.\<close>

definition escaped_char :: "char \<Rightarrow> char" where
  "escaped_char escaped =
     (if escaped = CHR ''n'' then CHR 0x0A
      else if escaped = CHR ''t'' then CHR 0x09
      else if escaped = CHR ''r'' then CHR 0x0D
      else if escaped = backslash then backslash
      else if escaped = CHR 0x27 then CHR 0x27
      else escaped)"

function read_string_loop :: "string \<Rightarrow> Tokenizer \<Rightarrow> string \<times> Tokenizer" where
  "read_string_loop v t =
     (if Tokenizer_peek t \<noteq> CHR 0x27 \<and> Tokenizer_peek t \<noteq> CHR 0x00 then
        (if Tokenizer_peek t = backslash
         then read_string_loop
                (v @ [escaped_char (fst (Tokenizer_advance (snd (Tokenizer_advance t))))])
                (snd (Tokenizer_advance (snd (Tokenizer_advance t))))
         else read_string_loop (v @ [fst (Tokenizer_advance t)]) (snd (Tokenizer_advance t)))
      else (v, t))"
  by pat_completeness auto
termination
proof (relation "measure (\<lambda>(v, t). length (tz_input t))")
  show "wf (measure (\<lambda>(v, t). length (tz_input t)))" by simp
next
  fix v :: string and t :: Tokenizer
  assume "Tokenizer_peek t \<noteq> CHR 0x27 \<and> Tokenizer_peek t \<noteq> CHR 0x00"
  then have "length (tz_input (snd (Tokenizer_advance t))) < length (tz_input t)"
    by (simp add: Tokenizer_advance_shorter)
  then show "((v @ [escaped_char (fst (Tokenizer_advance (snd (Tokenizer_advance t))))],
          snd (Tokenizer_advance (snd (Tokenizer_advance t)))), v, t)
      \<in> measure (\<lambda>(v, t). length (tz_input t))"
    using Tokenizer_advance_not_longer [of "snd (Tokenizer_advance t)"] by simp
next
  fix v :: string and t :: Tokenizer
  assume "Tokenizer_peek t \<noteq> CHR 0x27 \<and> Tokenizer_peek t \<noteq> CHR 0x00"
  then show "((v @ [fst (Tokenizer_advance t)], snd (Tokenizer_advance t)), v, t)
      \<in> measure (\<lambda>(v, t). length (tz_input t))"
    by (simp add: Tokenizer_advance_shorter)
qed

declare read_string_loop.simps [simp del]

definition read_string :: "Tokenizer \<Rightarrow> error + (Token \<times> Tokenizer)" where
  "read_string t =
     (let (v, t') = read_string_loop [] (snd (Tokenizer_advance t))
      in if Tokenizer_peek t' = CHR 0x27
         then Inr (\<lparr>tok_type = STRING_LITERAL, tok_value = v,
                    tok_line = tz_line t, tok_column = tz_column t\<rparr>,
                   snd (Tokenizer_advance t'))
         else Inl (RuntimeError ''Unterminated string literal''))"

definition read_operator :: "Tokenizer \<Rightarrow> Token \<times> Tokenizer" where
  "read_operator t =
     (let c = fst (Tokenizer_advance t);
          t1 = snd (Tokenizer_advance t);
          tok = (\<lambda>ty v. \<lparr>tok_type = ty, tok_value = v,
                        tok_line = tz_line t, tok_column = tz_column t\<rparr>)
      in if c = CHR ''='' then (tok EQUALS ''='', t1)
         else if c = CHR ''!'' \<and> Tokenizer_peek t1 = CHR ''=''
         then (tok NOT_EQUALS ''!='', snd (Tokenizer_advance t1))
         else if c = CHR ''<'' then
           (if Tokenizer_peek t1 = CHR ''=''
            then (tok LESS_EQUAL ''<='', snd (Tokenizer_advance t1))
            else if Tokenizer_peek t1 = CHR ''>''
            then (tok NOT_EQUALS ''<>'', snd (Tokenizer_advance t1))
            else (tok LESS_THAN ''<'', t1))
         else if c = CHR ''>'' then
           (if Tokenizer_peek t1 = CHR ''=''
            then (tok GREATER_EQUAL ''>='', snd (Tokenizer_advance t1))
            else (tok GREATER_THAN ''>'', t1))
         else (tok UNKNOWN [c], t1))"

definition next_token :: "Tokenizer \<Rightarrow> error + (Token \<times> Tokenizer)" where
  "next_token t0 =
     (let t = skip_whitespace (skip_comment (skip_whitespace t0));
          c = Tokenizer_peek t;
          tok = (\<lambda>ty v. \<lparr>tok_type = ty, tok_value = v,
                        tok_line = tz_line t, tok_column = tz_column t\<rparr>)
      in if tz_input t = [] then Inr (tok END_OF_FILE [], t)
         else if is_alpha c then Inr (read_identifier t)
         else if is_digit c then Inr (read_number t)
         else if c = CHR 0x27 then read_string t
         else if c = CHR ''='' \<or> c = CHR ''!'' \<or> c = CHR ''<'' \<or> c = CHR ''>''
         then Inr (read_operator t)
         else Inr (tok (if c = CHR '';'' then SEMICOLON
                        else if c = CHR '','' then COMMA
                        else if c = CHR ''('' then LEFT_PAREN
                        else if c = CHR '')'' then RIGHT_PAREN
                        else if c = CHR ''*'' then ASTERISK
                        else UNKNOWN) [c],
                   snd (Tokenizer_advance t)))"

lemma skip_whitespace_not_longer:
  "length (tz_input (skip_whitespace t)) \<le> length (tz_input t)"
proof (induction t rule: skip_whitespace.induct)
  case (1 t)
  show ?case
  proof (cases "isspace (Tokenizer_peek t)")
    case True
    with 1 Tokenizer_advance_not_longer [of t] show ?thesis
      by (simp add: skip_whitespace.simps [of t])
  next
    case False
    then show ?thesis by (simp add: skip_whitespace.simps [of t])
  qed
qed

lemma skip_comment_loop_not_longer:
  "length (tz_input (skip_comment_loop t)) \<le> length (tz_input t)"
proof (induction t rule: skip_comment_loop.induct)
  case (1 t)
  show ?case
  proof (cases "Tokenizer_peek t \<noteq> CHR 0x0A \<and> Tokenizer_peek t \<noteq> CHR 0x00")
    case True
    with 1 Tokenizer_advance_not_longer [of t] show ?thesis
      by (simp add: skip_comment_loop.simps [of t])
  next
    case False
    then show ?thesis by (subst skip_comment_loop.simps) auto
  qed
qed

lemma skip_comment_not_longer:
  "length (tz_input (skip_comment t)) \<le> length (tz_input t)"
  by (simp add: skip_comment_def skip_comment_loop_not_longer)

lemma read_identifier_loop_not_longer:
  "length (tz_input (snd (read_identifier_loop v t))) \<le> length (tz_input t)"
proof (induction v t rule: read_identifier_loop.induct)
  case (1 v t)
  show ?case
  proof (cases "is_alnum (Tokenizer_peek t)")
    case True
    with 1 Tokenizer_advance_not_longer [of t] show ?thesis
      by (simp add: read_identifier_loop.simps [of v t])
  next
    case False
    then show ?thesis by (simp add: read_identifier_loop.simps [of v t])
  qed
qed

lemma read_number_loop_not_longer:
  "length (tz_input (snd (read_number_loop v t))) \<le> length (tz_input t)"
proof (induction v t rule: read_number_loop.induct)
  case (1 v t)
  show ?case
  proof (cases "is_digit (Tokenizer_peek t)")
    case True
    with 1 Tokenizer_advance_not_longer [of t] show ?thesis
      by (simp add: read_number_loop.simps [of v t])
  next
    case False
    then show ?thesis by (simp add: read_number_loop.simps [of v t])
  qed
qed

lemma read_string_loop_not_longer:
  "length (tz_input (snd (read_string_loop v t))) \<le> length (tz_input t)"
proof (induction v t rule: read_string_loop.induct)
  case (1 v t)
  show ?case
  proof (cases "Tokenizer_peek t \<noteq> CHR 0x27 \<and> Tokenizer_peek t \<noteq> CHR 0x00")
    case True
    note go = this
    show ?thesis
    proof (cases "Tokenizer_peek t = backslash")
      case True
      with go "1.IH"(1) Tokenizer_advance_not_longer [of t]
        Tokenizer_advance_not_longer [of "snd (Tokenizer_advance t)"]
      show ?thesis by (simp add: read_string_loop.simps [of v t])
    next
      case False
      with go "1.IH"(2) Tokenizer_advance_not_longer [of t] show ?thesis
        by (simp add: read_string_loop.simps [of v t])
    qed
  next
    case False
    then show ?thesis by (subst read_string_loop.simps) auto
  qed
qed

lemma is_alpha_is_alnum: "is_alpha c \<Longrightarrow> is_alnum c"
  by (auto simp: is_alpha_def is_alnum_def isalnum_def)

lemma read_identifier_shorter:
  "is_alpha (Tokenizer_peek t) \<Longrightarrow>
     length (tz_input (snd (read_identifier t))) < length (tz_input t)"
proof -
  assume "is_alpha (Tokenizer_peek t)"
  then have a: "is_alnum (Tokenizer_peek t)" by (rule is_alpha_is_alnum)
  then have "length (tz_input (snd (Tokenizer_advance t))) < length (tz_input t)"
    by (simp add: Tokenizer_advance_shorter is_alnum_not_NUL)
  with a read_identifier_loop_not_longer
    [of "[fst (Tokenizer_advance t)]" "snd (Tokenizer_advance t)"]
  have "length (tz_input (snd (read_identifier_loop [] t))) < length (tz_input t)"
    by (simp add: read_identifier_loop.simps [of "[]" t])
  then show ?thesis
    by (auto simp: read_identifier_def Let_def split: prod.splits option.splits)
qed

lemma read_number_shorter:
  "is_digit (Tokenizer_peek t) \<Longrightarrow>
     length (tz_input (snd (read_number t))) < length (tz_input t)"
proof -
  assume a: "is_digit (Tokenizer_peek t)"
  then have "length (tz_input (snd (Tokenizer_advance t))) < length (tz_input t)"
    by (simp add: Tokenizer_advance_shorter is_digit_not_NUL)
  with a read_number_loop_not_longer
    [of "[fst (Tokenizer_advance t)]" "snd (Tokenizer_advance t)"]
  have "length (tz_input (snd (read_number_loop [] t))) < length (tz_input t)"
    by (simp add: read_number_loop.simps [of "[]" t])
  then show ?thesis
    by (auto simp: read_number_def Let_def split: prod.splits)
qed

lemma read_string_shorter:
  "Tokenizer_peek t \<noteq> CHR 0x00 \<Longrightarrow> read_string t = Inr (tok, t') \<Longrightarrow>
     length (tz_input t') < length (tz_input t)"
proof -
  assume a: "Tokenizer_peek t \<noteq> CHR 0x00" and r: "read_string t = Inr (tok, t')"
  obtain v t1 where l: "read_string_loop [] (snd (Tokenizer_advance t)) = (v, t1)"
    by (cases "read_string_loop [] (snd (Tokenizer_advance t))")
  with r have "t' = snd (Tokenizer_advance t1)"
    by (auto simp: read_string_def split: if_splits)
  moreover from l read_string_loop_not_longer [of "[]" "snd (Tokenizer_advance t)"]
  have "length (tz_input t1) \<le> length (tz_input (snd (Tokenizer_advance t)))" by simp
  ultimately show ?thesis
    using Tokenizer_advance_shorter [OF a] Tokenizer_advance_not_longer [of t1] by simp
qed

lemma read_operator_shorter:
  "Tokenizer_peek t \<noteq> CHR 0x00 \<Longrightarrow>
     length (tz_input (snd (read_operator t))) < length (tz_input t)"
  using Tokenizer_advance_shorter [of t]
    Tokenizer_advance_not_longer [of "snd (Tokenizer_advance t)"]
  by (auto simp: read_operator_def Let_def)

lemma next_token_progress:
  assumes "next_token t0 = Inr (tok, t')" "tok_type tok \<noteq> END_OF_FILE"
  shows "length (tz_input t') < length (tz_input t0)"
proof -
  let ?t = "skip_whitespace (skip_comment (skip_whitespace t0))"
  have le: "length (tz_input ?t) \<le> length (tz_input t0)"
    using skip_whitespace_not_longer [of "skip_comment (skip_whitespace t0)"]
      skip_comment_not_longer [of "skip_whitespace t0"] skip_whitespace_not_longer [of t0]
    by simp
  from assms have ne: "tz_input ?t \<noteq> []"
    by (auto simp: next_token_def Let_def split: if_splits)
  consider (id) "is_alpha (Tokenizer_peek ?t)"
    | (num) "\<not> is_alpha (Tokenizer_peek ?t)" "is_digit (Tokenizer_peek ?t)"
    | (str) "\<not> is_alpha (Tokenizer_peek ?t)" "\<not> is_digit (Tokenizer_peek ?t)"
        "Tokenizer_peek ?t = CHR 0x27"
    | (op) "\<not> is_alpha (Tokenizer_peek ?t)" "\<not> is_digit (Tokenizer_peek ?t)"
        "Tokenizer_peek ?t \<noteq> CHR 0x27"
        "Tokenizer_peek ?t = CHR ''='' \<or> Tokenizer_peek ?t = CHR ''!''
         \<or> Tokenizer_peek ?t = CHR ''<'' \<or> Tokenizer_peek ?t = CHR ''>''"
    | (single) "\<not> is_alpha (Tokenizer_peek ?t)" "\<not> is_digit (Tokenizer_peek ?t)"
        "Tokenizer_peek ?t \<noteq> CHR 0x27"
        "\<not> (Tokenizer_peek ?t = CHR ''='' \<or> Tokenizer_peek ?t = CHR ''!''
         \<or> Tokenizer_peek ?t = CHR ''<'' \<or> Tokenizer_peek ?t = CHR ''>'')"
    by blast
  then have "length (tz_input t') < length (tz_input ?t)"
  proof cases
    case id
    with assms ne have "t' = snd (read_identifier ?t)"
      by (auto simp: next_token_def Let_def)
    with read_identifier_shorter [OF id] show ?thesis by simp
  next
    case num
    with assms ne have "t' = snd (read_number ?t)"
      by (auto simp: next_token_def Let_def)
    with read_number_shorter [OF num(2)] show ?thesis by simp
  next
    case str
    with assms ne have "read_string ?t = Inr (tok, t')"
      by (auto simp: next_token_def Let_def)
    with read_string_shorter [of ?t tok t'] str show ?thesis by simp
  next
    case op
    with assms ne have "t' = snd (read_operator ?t)"
      by (auto simp: next_token_def Let_def)
    moreover from op(4) have "Tokenizer_peek ?t \<noteq> CHR 0x00" by auto
    ultimately show ?thesis using read_operator_shorter [of ?t] by simp
  next
    case single
    with assms ne have "t' = snd (Tokenizer_advance ?t)"
      by (auto simp: next_token_def Let_def)
    moreover from ne have "length (tz_input (snd (Tokenizer_advance ?t))) < length (tz_input ?t)"
      by (cases "tz_input ?t") (auto simp: Tokenizer_advance_def)
    ultimately show ?thesis by simp
  qed
  with le show ?thesis by simp
qed

function tokenize_loop :: "Token list \<Rightarrow> Tokenizer \<Rightarrow> error + Token list" where
  "tokenize_loop tokens t =
     (case next_token t of
        Inl e \<Rightarrow> Inl e
      | Inr (token, t') \<Rightarrow>
          if tok_type token = END_OF_FILE then Inr (tokens @ [token])
          else tokenize_loop (tokens @ [token]) t')"
  by pat_completeness auto
termination
proof (relation "measure (\<lambda>(tokens, t). length (tz_input t))")
  show "wf (measure (\<lambda>(tokens, t). length (tz_input t)))" by simp
next
  fix tokens :: "Token list" and t t' :: Tokenizer and x token
  assume "next_token t = Inr x" "(token, t') = x" "tok_type token \<noteq> END_OF_FILE"
  then show "((tokens @ [token], t'), tokens, t) \<in> measure (\<lambda>(tokens, t). length (tz_input t))"
    using next_token_progress [of t token t'] by simp
qed

declare tokenize_loop.simps [simp del]

definition tokenize :: "string \<Rightarrow> error + Token list" where
  "tokenize s = tokenize_loop [] (new_Tokenizer s)"

section \<open>parser/parser.cpp\<close>

text \<open>
  The parser reads its token vector from \<^verbatim>\<open>current_pos\<close> onwards and never looks back
  (the one read of \<^verbatim>\<open>tokens[current_pos - 1]\<close> is the token just matched), so its state
  is the list of tokens from \<^verbatim>\<open>current_pos\<close> on. Past the end, \<^verbatim>\<open>peek\<close> and \<^verbatim>\<open>advance\<close>
  answer a static end-of-file token and do not move.
\<close>

definition eof_token :: Token where
  "eof_token = \<lparr>tok_type = END_OF_FILE, tok_value = [], tok_line = 1, tok_column = 1\<rparr>"

definition Parser_peek :: "Token list \<Rightarrow> Token" where
  "Parser_peek ts = (case ts of [] \<Rightarrow> eof_token | t # _ \<Rightarrow> t)"

definition Parser_advance :: "Token list \<Rightarrow> Token \<times> Token list" where
  "Parser_advance ts = (case ts of [] \<Rightarrow> (eof_token, []) | t # rest \<Rightarrow> (t, rest))"

definition Parser_match :: "TokenType \<Rightarrow> Token list \<Rightarrow> bool \<times> Token list" where
  "Parser_match ty ts =
     (if tok_type (Parser_peek ts) = ty then (True, snd (Parser_advance ts)) else (False, ts))"

text \<open>\<^verbatim>\<open>match_any\<close> also reports the type it matched, which the caller reads back.\<close>

fun match_any :: "TokenType list \<Rightarrow> Token list \<Rightarrow> TokenType option \<times> Token list" where
  "match_any [] ts = (None, ts)"
| "match_any (ty # types) ts =
     (if tok_type (Parser_peek ts) = ty then (Some ty, snd (Parser_advance ts))
      else match_any types ts)"

fun token_type_to_string :: "TokenType \<Rightarrow> string" where
  "token_type_to_string IDENTIFIER = ''IDENTIFIER''"
| "token_type_to_string INTEGER_LITERAL = ''INTEGER_LITERAL''"
| "token_type_to_string STRING_LITERAL = ''STRING_LITERAL''"
| "token_type_to_string BOOLEAN_LITERAL = ''BOOLEAN_LITERAL''"
| "token_type_to_string CREATE = ''CREATE''"
| "token_type_to_string DROP = ''DROP''"
| "token_type_to_string TABLE = ''TABLE''"
| "token_type_to_string INSERT = ''INSERT''"
| "token_type_to_string INTO = ''INTO''"
| "token_type_to_string SELECT = ''SELECT''"
| "token_type_to_string FROM = ''FROM''"
| "token_type_to_string WHERE = ''WHERE''"
| "token_type_to_string VALUES = ''VALUES''"
| "token_type_to_string INTEGER = ''INTEGER''"
| "token_type_to_string VARCHAR = ''VARCHAR''"
| "token_type_to_string BOOLEAN = ''BOOLEAN''"
| "token_type_to_string PRIMARY = ''PRIMARY''"
| "token_type_to_string KEY = ''KEY''"
| "token_type_to_string NOT = ''NOT''"
| "token_type_to_string NULL_KEYWORD = ''NULL''"
| "token_type_to_string EQUALS = ''EQUALS''"
| "token_type_to_string NOT_EQUALS = ''NOT_EQUALS''"
| "token_type_to_string LESS_THAN = ''LESS_THAN''"
| "token_type_to_string GREATER_THAN = ''GREATER_THAN''"
| "token_type_to_string LESS_EQUAL = ''LESS_EQUAL''"
| "token_type_to_string GREATER_EQUAL = ''GREATER_EQUAL''"
| "token_type_to_string SEMICOLON = ''SEMICOLON''"
| "token_type_to_string COMMA = ''COMMA''"
| "token_type_to_string LEFT_PAREN = ''LEFT_PAREN''"
| "token_type_to_string RIGHT_PAREN = ''RIGHT_PAREN''"
| "token_type_to_string ASTERISK = ''ASTERISK''"
| "token_type_to_string END_OF_FILE = ''END_OF_FILE''"
| "token_type_to_string UNKNOWN = ''UNKNOWN''"

definition expect :: "TokenType \<Rightarrow> string \<Rightarrow> Token list \<Rightarrow> error + Token list" where
  "expect ty error_message ts =
     (if fst (Parser_match ty ts) then Inr (snd (Parser_match ty ts))
      else Inl (ParseError
             (error_message @ '', got '' @ token_type_to_string (tok_type (Parser_peek ts)))))"

definition is_at_end :: "Token list \<Rightarrow> bool" where
  "is_at_end ts = (tok_type (Parser_peek ts) = END_OF_FILE)"

text \<open>
  \<^verbatim>\<open>parse_data_type(int& varchar_length)\<close>: the length is passed in and handed back.
\<close>

definition parse_data_type ::
  "32 word \<Rightarrow> Token list \<Rightarrow> error + ((DataType \<times> 32 word) \<times> Token list)" where
  "parse_data_type varchar_len ts =
     (if fst (Parser_match INTEGER ts)
      then Inr ((DT_INTEGER, varchar_len), snd (Parser_match INTEGER ts))
      else if fst (Parser_match BOOLEAN ts)
      then Inr ((DT_BOOLEAN, varchar_len), snd (Parser_match BOOLEAN ts))
      else if fst (Parser_match VARCHAR ts) then
        (case expect LEFT_PAREN ''Expected '(' after VARCHAR'' (snd (Parser_match VARCHAR ts)) of
           Inl e \<Rightarrow> Inl e
         | Inr ts1 \<Rightarrow>
             if tok_type (Parser_peek ts1) \<noteq> INTEGER_LITERAL
             then Inl (ParseError ''Expected VARCHAR length'')
             else (case stoi (tok_value (fst (Parser_advance ts1))) of
                     Inl e \<Rightarrow> Inl e
                   | Inr n \<Rightarrow>
                       (case expect RIGHT_PAREN ''Expected ')' after VARCHAR length''
                               (snd (Parser_advance ts1)) of
                          Inl e \<Rightarrow> Inl e
                        | Inr ts2 \<Rightarrow> Inr ((DT_VARCHAR, n), ts2))))
      else Inl (ParseError ''Expected data type''))"

lemma Parser_match_shorter:
  "fst (Parser_match ty ts) \<Longrightarrow> ty \<noteq> END_OF_FILE \<Longrightarrow> length (snd (Parser_match ty ts)) < length ts"
  by (cases ts)
    (auto simp: Parser_match_def Parser_peek_def Parser_advance_def eof_token_def
      split: if_splits)

lemma expect_not_longer:
  "expect ty msg ts = Inr ts' \<Longrightarrow> length ts' \<le> length ts"
  by (cases ts) (auto simp: expect_def Parser_match_def Parser_peek_def Parser_advance_def
      split: if_splits)

function parse_constraints ::
  "ConstraintType list \<Rightarrow> Token list \<Rightarrow> error + (ConstraintType list \<times> Token list)" where
  "parse_constraints constraints ts =
     (if fst (Parser_match PRIMARY ts) then
        (case expect KEY ''Expected KEY after PRIMARY'' (snd (Parser_match PRIMARY ts)) of
           Inl e \<Rightarrow> Inl e
         | Inr ts1 \<Rightarrow> parse_constraints (constraints @ [PRIMARY_KEY]) ts1)
      else if fst (Parser_match NOT ts) then
        (case expect NULL_KEYWORD ''Expected NULL after NOT'' (snd (Parser_match NOT ts)) of
           Inl e \<Rightarrow> Inl e
         | Inr ts1 \<Rightarrow> parse_constraints (constraints @ [NOT_NULL]) ts1)
      else Inr (constraints, ts))"
  by pat_completeness auto
termination
proof (relation "measure (\<lambda>(cs, ts). length ts)")
  show "wf (measure (\<lambda>(cs, ts). length ts))" by simp
next
  fix constraints :: "ConstraintType list" and ts ts1 :: "Token list"
  assume "fst (Parser_match PRIMARY ts)"
    and "expect KEY ''Expected KEY after PRIMARY'' (snd (Parser_match PRIMARY ts)) = Inr ts1"
  then show "((constraints @ [PRIMARY_KEY], ts1), (constraints, ts)) \<in> measure (\<lambda>(cs, ts). length ts)"
    using Parser_match_shorter [of PRIMARY ts] expect_not_longer by fastforce
next
  fix constraints :: "ConstraintType list" and ts ts1 :: "Token list"
  assume "\<not> fst (Parser_match PRIMARY ts)" and "fst (Parser_match NOT ts)"
    and "expect NULL_KEYWORD ''Expected NULL after NOT'' (snd (Parser_match NOT ts)) = Inr ts1"
  then show "((constraints @ [NOT_NULL], ts1), (constraints, ts)) \<in> measure (\<lambda>(cs, ts). length ts)"
    using Parser_match_shorter [of NOT ts] expect_not_longer by fastforce
qed

declare parse_constraints.simps [simp del]

definition parse_column_definition :: "Token list \<Rightarrow> error + (Column \<times> Token list)" where
  "parse_column_definition ts =
     (if tok_type (Parser_peek ts) \<noteq> IDENTIFIER then Inl (ParseError ''Expected column name'')
      else
        (case parse_data_type 0 (snd (Parser_advance ts)) of
           Inl e \<Rightarrow> Inl e
         | Inr ((data_type, varchar_len), ts1) \<Rightarrow>
             (case parse_constraints [] ts1 of
                Inl e \<Rightarrow> Inl e
              | Inr (constraints, ts2) \<Rightarrow>
                  Inr (\<lparr>col_name = tok_value (fst (Parser_advance ts)),
                        col_type = data_type,
                        varchar_length = varchar_len,
                        is_primary_key = (PRIMARY_KEY \<in> set constraints),
                        is_not_null = (NOT_NULL \<in> set constraints)\<rparr>, ts2))))"

definition parse_value :: "Token list \<Rightarrow> error + (Value \<times> Token list)" where
  "parse_value ts =
     (if tok_type (Parser_peek ts) = INTEGER_LITERAL then
        (case stoi (tok_value (fst (Parser_advance ts))) of
           Inl e \<Rightarrow> Inl e
         | Inr v \<Rightarrow> Inr (VInt v, snd (Parser_advance ts)))
      else if tok_type (Parser_peek ts) = STRING_LITERAL then
        Inr (VString (tok_value (fst (Parser_advance ts))), snd (Parser_advance ts))
      else if tok_type (Parser_peek ts) = BOOLEAN_LITERAL then
        Inr (VBool (map toupper (tok_value (fst (Parser_advance ts))) = ''TRUE''),
             snd (Parser_advance ts))
      else Inl (ParseError ''Expected value''))"

definition parse_where_clause :: "Token list \<Rightarrow> error + (WhereCondition \<times> Token list)" where
  "parse_where_clause ts =
     (if tok_type (Parser_peek ts) \<noteq> IDENTIFIER
      then Inl (ParseError ''Expected column name in WHERE clause'')
      else
        (case match_any [EQUALS, NOT_EQUALS, LESS_THAN, GREATER_THAN, LESS_EQUAL, GREATER_EQUAL]
                (snd (Parser_advance ts)) of
           (None, ts1) \<Rightarrow> Inl (ParseError ''Expected comparison operator in WHERE clause'')
         | (Some op_type, ts1) \<Rightarrow>
             (case parse_value ts1 of
                Inl e \<Rightarrow> Inl e
              | Inr (v, ts2) \<Rightarrow>
                  Inr (\<lparr>column_name = tok_value (fst (Parser_advance ts)),
                        operator_type = op_type, cond_value = v\<rparr>, ts2))))"

lemma parse_data_type_not_longer:
  "parse_data_type n ts = Inr (r, ts') \<Longrightarrow> length ts' < length ts"
  unfolding parse_data_type_def
  using Parser_match_shorter [of INTEGER ts] Parser_match_shorter [of BOOLEAN ts]
    Parser_match_shorter [of VARCHAR ts]
  by (auto split: if_splits sum.splits dest!: expect_not_longer
      simp: Parser_advance_def split: list.splits)

lemma parse_constraints_not_longer:
  "parse_constraints cs ts = Inr (cs', ts') \<Longrightarrow> length ts' \<le> length ts"
proof (induction cs ts rule: parse_constraints.induct)
  case (1 constraints ts)
  show ?case
  proof (cases "fst (Parser_match PRIMARY ts)")
    case True
    with "1.prems" obtain ts1 where
      e: "expect KEY ''Expected KEY after PRIMARY'' (snd (Parser_match PRIMARY ts)) = Inr ts1"
      and r: "parse_constraints (constraints @ [PRIMARY_KEY]) ts1 = Inr (cs', ts')"
      by (auto simp: parse_constraints.simps [of constraints ts] split: sum.splits)
    from "1.IH"(1) [OF True e r] expect_not_longer [OF e] Parser_match_shorter [OF True]
    show ?thesis by simp
  next
    case False
    note np = this
    show ?thesis
    proof (cases "fst (Parser_match NOT ts)")
      case True
      with np "1.prems" obtain ts1 where
        e: "expect NULL_KEYWORD ''Expected NULL after NOT'' (snd (Parser_match NOT ts)) = Inr ts1"
        and r: "parse_constraints (constraints @ [NOT_NULL]) ts1 = Inr (cs', ts')"
        by (auto simp: parse_constraints.simps [of constraints ts] split: sum.splits)
      from "1.IH"(2) [OF np True e r] expect_not_longer [OF e] Parser_match_shorter [OF True]
      show ?thesis by simp
    next
      case False
      with np "1.prems" show ?thesis
        by (simp add: parse_constraints.simps [of constraints ts])
    qed
  qed
qed

lemma parse_column_definition_shorter:
  "parse_column_definition ts = Inr (c, ts') \<Longrightarrow> length ts' < length ts"
  unfolding parse_column_definition_def
  by (cases ts)
    (auto split: if_splits sum.splits prod.splits simp: Parser_advance_def Parser_peek_def
      eof_token_def dest!: parse_data_type_not_longer parse_constraints_not_longer)

lemma parse_value_shorter:
  "parse_value ts = Inr (v, ts') \<Longrightarrow> length ts' < length ts"
  unfolding parse_value_def
  by (cases ts)
    (auto split: if_splits sum.splits simp: Parser_advance_def Parser_peek_def eof_token_def)

text \<open>
  The \<^verbatim>\<open>do { ... } while (match(COMMA))\<close> loop of \<^verbatim>\<open>parse_create_table\<close>, with the
  columns pushed so far.
\<close>

function parse_create_table_loop ::
  "Column list \<Rightarrow> Token list \<Rightarrow> error + (Column list \<times> Token list)" where
  "parse_create_table_loop cols ts =
     (if tok_type (Parser_peek ts) = RIGHT_PAREN then Inr (cols, ts)
      else
        (case parse_column_definition ts of
           Inl e \<Rightarrow> Inl e
         | Inr (column, ts1) \<Rightarrow>
             if fst (Parser_match COMMA ts1)
             then parse_create_table_loop (cols @ [column]) (snd (Parser_match COMMA ts1))
             else Inr (cols @ [column], ts1)))"
  by pat_completeness auto
termination
proof (relation "measure (\<lambda>(cs, ts). length ts)")
  show "wf (measure (\<lambda>(cs, ts). length ts))" by simp
next
  fix cols :: "Column list" and ts ts1 :: "Token list" and x column
  assume "parse_column_definition ts = Inr x" and "(column, ts1) = x"
    and "fst (Parser_match COMMA ts1)"
  then show "((cols @ [column], snd (Parser_match COMMA ts1)), (cols, ts))
      \<in> measure (\<lambda>(cs, ts). length ts)"
    using parse_column_definition_shorter [of ts column ts1] Parser_match_shorter [of COMMA ts1]
    by simp
qed

declare parse_create_table_loop.simps [simp del]

definition parse_create_table :: "Token list \<Rightarrow> error + (Statement \<times> Token list)" where
  "parse_create_table ts =
     (case expect CREATE ''Expected CREATE'' ts of
        Inl e \<Rightarrow> Inl e
      | Inr ts1 \<Rightarrow>
     (case expect TABLE ''Expected TABLE'' ts1 of
        Inl e \<Rightarrow> Inl e
      | Inr ts2 \<Rightarrow>
          if tok_type (Parser_peek ts2) \<noteq> IDENTIFIER then Inl (ParseError ''Expected table name'')
          else
     (case expect LEFT_PAREN (''Expected '('' @ [CHR 0x27]) (snd (Parser_advance ts2)) of
        Inl e \<Rightarrow> Inl e
      | Inr ts3 \<Rightarrow>
     (case parse_create_table_loop [] ts3 of
        Inl e \<Rightarrow> Inl e
      | Inr (cols, ts4) \<Rightarrow>
     (case expect RIGHT_PAREN (''Expected ')'' @ [CHR 0x27]) ts4 of
        Inl e \<Rightarrow> Inl e
      | Inr ts5 \<Rightarrow>
          Inr (CreateTableStatement (tok_value (fst (Parser_advance ts2))) cols, ts5))))))"

definition parse_drop_table :: "Token list \<Rightarrow> error + (Statement \<times> Token list)" where
  "parse_drop_table ts =
     (case expect DROP ''Expected DROP'' ts of
        Inl e \<Rightarrow> Inl e
      | Inr ts1 \<Rightarrow>
     (case expect TABLE ''Expected TABLE'' ts1 of
        Inl e \<Rightarrow> Inl e
      | Inr ts2 \<Rightarrow>
          if tok_type (Parser_peek ts2) \<noteq> IDENTIFIER then Inl (ParseError ''Expected table name'')
          else Inr (DropTableStatement (tok_value (fst (Parser_advance ts2))),
                    snd (Parser_advance ts2))))"

function parse_insert_loop ::
  "Value list \<Rightarrow> Token list \<Rightarrow> error + (Value list \<times> Token list)" where
  "parse_insert_loop vals ts =
     (if tok_type (Parser_peek ts) = RIGHT_PAREN then Inr (vals, ts)
      else
        (case parse_value ts of
           Inl e \<Rightarrow> Inl e
         | Inr (v, ts1) \<Rightarrow>
             if fst (Parser_match COMMA ts1)
             then parse_insert_loop (vals @ [v]) (snd (Parser_match COMMA ts1))
             else Inr (vals @ [v], ts1)))"
  by pat_completeness auto
termination
proof (relation "measure (\<lambda>(vs, ts). length ts)")
  show "wf (measure (\<lambda>(vs, ts). length ts))" by simp
next
  fix vals :: "Value list" and ts ts1 :: "Token list" and x v
  assume "parse_value ts = Inr x" and "(v, ts1) = x" and "fst (Parser_match COMMA ts1)"
  then show "((vals @ [v], snd (Parser_match COMMA ts1)), (vals, ts))
      \<in> measure (\<lambda>(vs, ts). length ts)"
    using parse_value_shorter [of ts v ts1] Parser_match_shorter [of COMMA ts1]
    by simp
qed

declare parse_insert_loop.simps [simp del]

definition parse_insert :: "Token list \<Rightarrow> error + (Statement \<times> Token list)" where
  "parse_insert ts =
     (case expect INSERT ''Expected INSERT'' ts of
        Inl e \<Rightarrow> Inl e
      | Inr ts1 \<Rightarrow>
     (case expect INTO ''Expected INTO'' ts1 of
        Inl e \<Rightarrow> Inl e
      | Inr ts2 \<Rightarrow>
          if tok_type (Parser_peek ts2) \<noteq> IDENTIFIER then Inl (ParseError ''Expected table name'')
          else
     (case expect VALUES ''Expected VALUES'' (snd (Parser_advance ts2)) of
        Inl e \<Rightarrow> Inl e
      | Inr ts3 \<Rightarrow>
     (case expect LEFT_PAREN (''Expected '('' @ [CHR 0x27]) ts3 of
        Inl e \<Rightarrow> Inl e
      | Inr ts4 \<Rightarrow>
     (case parse_insert_loop [] ts4 of
        Inl e \<Rightarrow> Inl e
      | Inr (vals, ts5) \<Rightarrow>
     (case expect RIGHT_PAREN (''Expected ')'' @ [CHR 0x27]) ts5 of
        Inl e \<Rightarrow> Inl e
      | Inr ts6 \<Rightarrow>
          Inr (InsertStatement (tok_value (fst (Parser_advance ts2))) vals, ts6)))))))"

definition parse_select :: "Token list \<Rightarrow> error + (Statement \<times> Token list)" where
  "parse_select ts =
     (case expect SELECT ''Expected SELECT'' ts of
        Inl e \<Rightarrow> Inl e
      | Inr ts1 \<Rightarrow>
          if \<not> fst (Parser_match ASTERISK ts1)
          then Inl (ParseError ''Only SELECT * is currently supported'')
          else
     (case expect FROM ''Expected FROM'' (snd (Parser_match ASTERISK ts1)) of
        Inl e \<Rightarrow> Inl e
      | Inr ts2 \<Rightarrow>
          if tok_type (Parser_peek ts2) \<noteq> IDENTIFIER then Inl (ParseError ''Expected table name'')
          else if fst (Parser_match WHERE (snd (Parser_advance ts2))) then
            (case parse_where_clause (snd (Parser_match WHERE (snd (Parser_advance ts2)))) of
               Inl e \<Rightarrow> Inl e
             | Inr (w, ts3) \<Rightarrow>
                 Inr (SelectStatement (tok_value (fst (Parser_advance ts2))) True (Some w), ts3))
          else Inr (SelectStatement (tok_value (fst (Parser_advance ts2))) True None,
                    snd (Parser_advance ts2))))"

text \<open>
  \<^verbatim>\<open>Parser::parse\<close> on a fresh parser: \<^verbatim>\<open>nullptr\<close> is \<open>None\<close>; the tokens left after the
  statement are not part of its result.
\<close>

definition stmt_of :: "error + (Statement \<times> Token list) \<Rightarrow> error + Statement option" where
  "stmt_of r = (case r of Inl e \<Rightarrow> Inl e | Inr (stmt, ts) \<Rightarrow> Inr (Some stmt))"

definition parse :: "Token list \<Rightarrow> error + Statement option" where
  "parse ts =
     (if is_at_end ts then Inr None
      else if tok_type (Parser_peek ts) = CREATE then stmt_of (parse_create_table ts)
      else if tok_type (Parser_peek ts) = DROP then stmt_of (parse_drop_table ts)
      else if tok_type (Parser_peek ts) = INSERT then stmt_of (parse_insert ts)
      else if tok_type (Parser_peek ts) = SELECT then stmt_of (parse_select ts)
      else Inl (ParseError ''Expected SQL keyword''))"

section \<open>storage/metadata.cpp\<close>

text \<open>
  The state of a \<^verbatim>\<open>MetadataManager\<close>, and the part of the file system it works on.
  \<open>tables\<close> is the \<^verbatim>\<open>std::unordered_map\<close> from table names to schemas, as an association
  list with one entry per key; the order of the list stands for the order in which the
  map is iterated, which C++ leaves open. \<open>file_content\<close> is what the metadata file holds
  on disk (\<open>None\<close>: it cannot be opened for reading), and \<open>file_writable\<close> says whether
  \<^verbatim>\<open>std::ofstream\<close> can open it for writing.
\<close>

record MetadataManager =
  tables :: "(string \<times> TableSchema) list"
  file_content :: "string option"
  file_writable :: bool

definition serialize_data_type :: "DataType \<Rightarrow> string" where
  "serialize_data_type t =
     (case t of DT_INTEGER \<Rightarrow> ''INTEGER'' | DT_VARCHAR \<Rightarrow> ''VARCHAR'' | DT_BOOLEAN \<Rightarrow> ''BOOLEAN'')"


definition serialize_column :: "Column \<Rightarrow> string" where
  "serialize_column column =
     ''COLUMN:'' @ col_name column @ '':'' @ serialize_data_type (col_type column)
     @ (if col_type column = DT_VARCHAR
        then '':'' @ string_of_int (sint (varchar_length column)) else '':0'')
     @ '':'' @ (if is_primary_key column then ''1'' else ''0'')
     @ '':'' @ (if is_not_null column then ''1'' else ''0'')"


text \<open>The text \<^verbatim>\<open>save_metadata\<close> writes for one entry of the map, and for the whole map.\<close>

definition table_text :: "string \<times> TableSchema \<Rightarrow> string" where
  "table_text entry =
     ''TABLE:'' @ fst entry @ '':'' @ string_of_nat (length (columns (snd entry))) @ [CHR 0x0A]
     @ concat (map (\<lambda>column. serialize_column column @ [CHR 0x0A]) (columns (snd entry)))
     @ [CHR 0x0A]"

definition metadata_text :: "(string \<times> TableSchema) list \<Rightarrow> string" where
  "metadata_text tabs =
     ''# SQL Database Engine Metadata'' @ [CHR 0x0A]
     @ ''# Format: TABLE:name:column_count followed by column definitions'' @ [CHR 0x0A, CHR 0x0A]
     @ concat (map table_text tabs)"

text \<open>
  A member function that can throw returns what it threw (or \<open>Inr ()\<close>) together with the
  state the manager is left in.
\<close>

definition save_metadata :: "MetadataManager \<Rightarrow> (error + unit) \<times> MetadataManager" where
  "save_metadata m =
     (if \<not> file_writable m
      then (Inl (RuntimeError ''Cannot open metadata file for writing''), m)
      else (Inr (), m\<lparr>file_content := Some (metadata_text (tables m))\<rparr>))"





definition get_table_schema :: "MetadataManager \<Rightarrow> string \<Rightarrow> TableSchema option" where
  "get_table_schema m table_name = map_of (tables m) table_name"

definition table_exists :: "MetadataManager \<Rightarrow> string \<Rightarrow> bool" where
  "table_exists m table_name = (map_of (tables m) table_name \<noteq> None)"

definition get_columns :: "MetadataManager \<Rightarrow> string \<Rightarrow> Column list" where
  "get_columns m table_name =
     (case get_table_schema m table_name of None \<Rightarrow> [] | Some schema \<Rightarrow> columns schema)"

text \<open>
  The \<^verbatim>\<open>for\<close> loop of \<^verbatim>\<open>create_table\<close> over the columns, with the names seen and the
  primary keys counted so far; it returns the count. The count is an \<^verbatim>\<open>int\<close> that the loop
  only increments, once per column at most; it is modelled as an unbounded integer.
\<close>

fun create_table_loop :: "string list \<Rightarrow> int \<Rightarrow> Column list \<Rightarrow> error + int" where
  "create_table_loop column_names primary_key_count [] = Inr primary_key_count"
| "create_table_loop column_names primary_key_count (column # rest) =
     (if col_name column = [] then Inl (RuntimeError ''Column name cannot be empty'')
      else if col_name column \<in> set column_names
      then Inl (RuntimeError (''Duplicate column name: '' @ col_name column))
      else
        (let column_names' = column_names @ [col_name column];
             primary_key_count' =
               (if is_primary_key column then primary_key_count + 1 else primary_key_count)
         in if col_type column = DT_VARCHAR \<and> sint (varchar_length column) \<le> 0
            then Inl (RuntimeError
                   (''VARCHAR length must be positive for column: '' @ col_name column))
            else create_table_loop column_names' primary_key_count' rest))"

definition create_table ::
  "MetadataManager \<Rightarrow> string \<Rightarrow> Column list \<Rightarrow> (error + unit) \<times> MetadataManager" where
  "create_table m table_name cols =
     (if table_exists m table_name
      then (Inl (RuntimeError (''Table '' @ [CHR 0x27] @ table_name @ [CHR 0x27] @ '' already exists'')), m)
      else if table_name = [] then (Inl (RuntimeError ''Table name cannot be empty''), m)
      else if cols = [] then (Inl (RuntimeError ''Table must have at least one column''), m)
      else
        (case create_table_loop [] 0 cols of
           Inl e \<Rightarrow> (Inl e, m)
         | Inr primary_key_count \<Rightarrow>
             if primary_key_count > 1
             then (Inl (RuntimeError ''Table can have at most one primary key''), m)
             else save_metadata
                    (m\<lparr>tables := AList.update table_name
                                   \<lparr>schema_name = table_name, columns = cols\<rparr> (tables m)\<rparr>)))"

text \<open>
  \<^verbatim>\<open>validate_insert_values\<close>: the loop over the positions, as a loop over the pairs of
  column and value (the two vectors have the same size when it runs). The length of the
  string is a \<^verbatim>\<open>size_t\<close> cast to \<^verbatim>\<open>int\<close>.
\<close>

fun validate_insert_loop :: "(Column \<times> Value) list \<Rightarrow> error + unit" where
  "validate_insert_loop [] = Inr ()"
| "validate_insert_loop ((column, v) # rest) =
     (case col_type column of
        DT_INTEGER \<Rightarrow>
          (case v of
             VInt i \<Rightarrow> validate_insert_loop rest
           | _ \<Rightarrow> Inl (RuntimeError
                  (''Type mismatch for column '' @ [CHR 0x27] @ col_name column @ [CHR 0x27])))
      | DT_VARCHAR \<Rightarrow>
          (case v of
             VString str_value \<Rightarrow>
               if varchar_length column <s (word_of_nat (length str_value) :: 32 word)
               then Inl (RuntimeError
                      (''String too long for column '' @ [CHR 0x27] @ col_name column @ [CHR 0x27]
                       @ '', max length is '' @ string_of_int (sint (varchar_length column))))
               else validate_insert_loop rest
           | _ \<Rightarrow> Inl (RuntimeError
                  (''Type mismatch for column '' @ [CHR 0x27] @ col_name column @ [CHR 0x27])))
      | DT_BOOLEAN \<Rightarrow>
          (case v of
             VBool b \<Rightarrow> validate_insert_loop rest
           | _ \<Rightarrow> Inl (RuntimeError
                  (''Type mismatch for column '' @ [CHR 0x27] @ col_name column @ [CHR 0x27]))))"

definition validate_insert_values :: "MetadataManager \<Rightarrow> string \<Rightarrow> Value list \<Rightarrow> error + unit" where
  "validate_insert_values m table_name vals =
     (case get_table_schema m table_name of
        None \<Rightarrow> Inl (RuntimeError
                 (''Table '' @ [CHR 0x27] @ table_name @ [CHR 0x27] @ '' does not exist''))
      | Some schema \<Rightarrow>
          if length vals \<noteq> length (columns schema)
          then Inl (RuntimeError
                 (''INSERT has '' @ string_of_nat (length vals) @ '' values, expected ''
                  @ string_of_nat (length (columns schema))))
          else validate_insert_loop (zip (columns schema) vals))"

text \<open>
  \<^verbatim>\<open>get_column\<close>: the first column of the table's schema with the given name, or
  \<^verbatim>\<open>nullptr\<close>.
\<close>

definition get_column :: "MetadataManager \<Rightarrow> string \<Rightarrow> string \<Rightarrow> Column option" where
  "get_column m table_name cname =
     (case get_table_schema m table_name of
        None \<Rightarrow> None
      | Some schema \<Rightarrow> find (\<lambda>column. col_name column = cname) (columns schema))"

text \<open>
  \<^verbatim>\<open>get_column_index\<close>: the loop over the positions \<open>i\<close>, a \<^verbatim>\<open>size_t\<close> that is cast to
  \<^verbatim>\<open>int\<close> when the name is found; \<open>-1\<close> when it is not.
\<close>

fun get_column_index_loop :: "nat \<Rightarrow> Column list \<Rightarrow> string \<Rightarrow> 32 word" where
  "get_column_index_loop i [] cname = - 1"
| "get_column_index_loop i (column # rest) cname =
     (if col_name column = cname then word_of_nat i
      else get_column_index_loop (Suc i) rest cname)"

definition get_column_index :: "MetadataManager \<Rightarrow> string \<Rightarrow> string \<Rightarrow> 32 word" where
  "get_column_index m table_name cname =
     (case get_table_schema m table_name of
        None \<Rightarrow> - 1
      | Some schema \<Rightarrow> get_column_index_loop 0 (columns schema) cname)"

text \<open>
  \<^verbatim>\<open>validate_where_condition\<close>: the column must exist, and the value of the condition
  must hold the alternative of the column's type.
\<close>

definition validate_where_condition ::
  "MetadataManager \<Rightarrow> string \<Rightarrow> WhereCondition \<Rightarrow> error + unit" where
  "validate_where_condition m table_name condition =
     (case get_column m table_name (column_name condition) of
        None \<Rightarrow> Inl (RuntimeError
                 (''Column '' @ [CHR 0x27] @ column_name condition @ [CHR 0x27]
                  @ '' does not exist in table '' @ [CHR 0x27] @ table_name @ [CHR 0x27]))
      | Some column \<Rightarrow>
          (let type_match =
                 (case col_type column of
                    DT_INTEGER \<Rightarrow> (case cond_value condition of VInt i \<Rightarrow> True | _ \<Rightarrow> False)
                  | DT_VARCHAR \<Rightarrow> (case cond_value condition of VString s \<Rightarrow> True | _ \<Rightarrow> False)
                  | DT_BOOLEAN \<Rightarrow> (case cond_value condition of VBool b \<Rightarrow> True | _ \<Rightarrow> False))
           in if \<not> type_match
              then Inl (RuntimeError
                     (''Type mismatch for column '' @ [CHR 0x27] @ column_name condition
                      @ [CHR 0x27]))
              else Inr ()))"

section \<open>storage/table.cpp\<close>

text \<open>
  A \<^verbatim>\<open>TableStorage\<close> is bound to a table name and works on the table's data file at
  \<open>tbl_file_path\<close>:
  \<open>data_file\<close> is what the file holds (\<open>None\<close>: it cannot be opened for reading), and
  \<open>data_file_writable\<close> says whether it can be opened for appending. The catalog it
  points to is passed to each function.
\<close>

record TableStorage =
  tbl_name :: string
  tbl_file_path :: string
  data_file :: "string option"
  data_file_writable :: bool

definition escape_char :: "char \<Rightarrow> string" where
  "escape_char c =
     (if c = CHR ''|'' \<or> c = backslash \<or> c = CHR 0x0A \<or> c = CHR 0x0D
      then backslash #
        (if c = CHR ''|'' then ''|''
         else if c = backslash then [backslash]
         else if c = CHR 0x0A then ''n''
         else ''r'')
      else [c])"

text \<open>
  \<^verbatim>\<open>std::get<T>(value)\<close> throws \<^verbatim>\<open>std::bad_variant_access\<close> when the value holds another
  alternative.
\<close>

fun serialize_value :: "Value \<Rightarrow> DataType \<Rightarrow> error + string" where
  "serialize_value (VInt i) DT_INTEGER = Inr (string_of_int (sint i))"
| "serialize_value (VString str) DT_VARCHAR = Inr (concat (map escape_char str))"
| "serialize_value (VBool b) DT_BOOLEAN = Inr (if b then ''1'' else ''0'')"
| "serialize_value v t = Inl BadVariantAccess"

fun unescape :: "string \<Rightarrow> string" where
  "unescape [] = []"
| "unescape [c] = [c]"
| "unescape (c # next # rest) =
     (if c = backslash then
        (if next = CHR ''|'' then CHR ''|''
         else if next = backslash then backslash
         else if next = CHR ''n'' then CHR 0x0A
         else if next = CHR ''r'' then CHR 0x0D
         else next) # unescape rest
      else c # unescape (next # rest))"

definition deserialize_value :: "string \<Rightarrow> DataType \<Rightarrow> error + Value" where
  "deserialize_value value_str t =
     (case t of
        DT_INTEGER \<Rightarrow> (case stoi value_str of Inl e \<Rightarrow> Inl e | Inr i \<Rightarrow> Inr (VInt i))
      | DT_VARCHAR \<Rightarrow> Inr (VString (unescape value_str))
      | DT_BOOLEAN \<Rightarrow> Inr (VBool (value_str = ''1'')))"

text \<open>The loop of \<^verbatim>\<open>serialize_row\<close>, with the stream written so far and the index.\<close>

fun serialize_row_loop :: "string \<Rightarrow> nat \<Rightarrow> (Value \<times> Column) list \<Rightarrow> error + string" where
  "serialize_row_loop oss i [] = Inr oss"
| "serialize_row_loop oss i ((v, column) # rest) =
     (case serialize_value v (col_type column) of
        Inl e \<Rightarrow> Inl e
      | Inr s \<Rightarrow> serialize_row_loop ((if 0 < i then oss @ ''|'' else oss) @ s) (i + 1) rest)"

definition serialize_row :: "MetadataManager \<Rightarrow> TableStorage \<Rightarrow> Row \<Rightarrow> error + string" where
  "serialize_row m ts row =
     (if length row \<noteq> length (get_columns m (tbl_name ts))
      then Inl (RuntimeError ''Row size doesn't match table schema'')
      else serialize_row_loop [] 0 (zip row (get_columns m (tbl_name ts))))"

text \<open>
  The first loop of \<^verbatim>\<open>deserialize_row\<close> over the characters of the line, with the
  fields closed so far, the field being read and the escape flag.
\<close>

fun split_fields :: "string list \<Rightarrow> string \<Rightarrow> bool \<Rightarrow> string \<Rightarrow> string list \<times> string" where
  "split_fields value_strings current_value escaped [] = (value_strings, current_value)"
| "split_fields value_strings current_value escaped (c # cs) =
     (if escaped then split_fields value_strings (current_value @ [c]) False cs
      else if c = backslash then split_fields value_strings (current_value @ [c]) True cs
      else if c = CHR ''|'' then split_fields (value_strings @ [current_value]) [] False cs
      else split_fields value_strings (current_value @ [c]) False cs)"

text \<open>The second loop: each field read as a value of its column's type.\<close>

fun deserialize_row_loop :: "(string \<times> Column) list \<Rightarrow> error + Row" where
  "deserialize_row_loop [] = Inr []"
| "deserialize_row_loop ((s, column) # rest) =
     (case deserialize_value s (col_type column) of
        Inl e \<Rightarrow> Inl e
      | Inr v \<Rightarrow> (case deserialize_row_loop rest of Inl e \<Rightarrow> Inl e | Inr row \<Rightarrow> Inr (v # row)))"

definition deserialize_row :: "MetadataManager \<Rightarrow> TableStorage \<Rightarrow> string \<Rightarrow> error + Row" where
  "deserialize_row m ts row_str =
     (let (closed, current_value) = split_fields [] [] False row_str;
          value_strings =
            (if current_value \<noteq> [] \<or> closed \<noteq> [] then closed @ [current_value] else closed)
      in if length value_strings \<noteq> length (get_columns m (tbl_name ts))
         then Inl (RuntimeError ''Row data doesn't match table schema'')
         else deserialize_row_loop (zip value_strings (get_columns m (tbl_name ts))))"

definition insert_row ::
  "MetadataManager \<Rightarrow> TableStorage \<Rightarrow> Value list \<Rightarrow> (error + unit) \<times> TableStorage" where
  "insert_row m ts vals =
     (case validate_insert_values m (tbl_name ts) vals of
        Inl e \<Rightarrow> (Inl e, ts)
      | Inr u \<Rightarrow>
          (case serialize_row m ts vals of
             Inl e \<Rightarrow> (Inl e, ts)
           | Inr row_data \<Rightarrow>
               if \<not> data_file_writable ts
               then (Inl (RuntimeError (''Cannot open table file for writing: '' @ tbl_file_path ts)), ts)
               else (Inr (), ts\<lparr>data_file :=
                       Some ((case data_file ts of None \<Rightarrow> [] | Some old \<Rightarrow> old)
                             @ row_data @ [CHR 0x0A])\<rparr>)))"

text \<open>
  The loop of \<^verbatim>\<open>select_all\<close> over the lines of the file; a line whose
  \<^verbatim>\<open>deserialize_row\<close> throws is skipped.
\<close>

fun select_all_loop :: "MetadataManager \<Rightarrow> TableStorage \<Rightarrow> string list \<Rightarrow> Row list" where
  "select_all_loop m ts [] = []"
| "select_all_loop m ts (line # rest) =
     (if line = [] \<or> hd line = CHR ''#'' then select_all_loop m ts rest
      else (case deserialize_row m ts line of
              Inl e \<Rightarrow> select_all_loop m ts rest
            | Inr row \<Rightarrow> row # select_all_loop m ts rest))"

definition select_all :: "MetadataManager \<Rightarrow> TableStorage \<Rightarrow> error + Row list" where
  "select_all m ts =
     (case data_file ts of
        None \<Rightarrow> Inl (RuntimeError (''Cannot open table file for reading: '' @ tbl_file_path ts))
      | Some content \<Rightarrow> Inr (select_all_loop m ts (file_lines [] content)))"

text \<open>
  \<^verbatim>\<open>TableStorage::compare_values\<close>. The body of its \<^verbatim>\<open>try\<close> cannot throw, so the
  \<^verbatim>\<open>catch (...)\<close> branch is never taken.
\<close>

fun compare_values :: "Value \<Rightarrow> Value \<Rightarrow> TokenType \<Rightarrow> bool" where
  "compare_values left right EQUALS = variant_eq left right"
| "compare_values left right NOT_EQUALS = (\<not> variant_eq left right)"
| "compare_values left right LESS_THAN = variant_less left right"
| "compare_values left right GREATER_THAN = variant_less right left"
| "compare_values left right LESS_EQUAL = variant_less_eq left right"
| "compare_values left right GREATER_EQUAL = variant_less_eq right left"
| "compare_values left right _ = False"

text \<open>
  \<^verbatim>\<open>evaluate_condition\<close>: the index of the condition's column is an \<^verbatim>\<open>int\<close>, compared with
  the size of the row cast to \<^verbatim>\<open>int\<close>; past the two tests it is a position of the row.
\<close>

definition evaluate_condition ::
  "MetadataManager \<Rightarrow> TableStorage \<Rightarrow> Row \<Rightarrow> WhereCondition \<Rightarrow> bool" where
  "evaluate_condition m ts row condition =
     (let column_index = get_column_index m (tbl_name ts) (column_name condition)
      in if column_index <s 0 \<or> (word_of_nat (length row) :: 32 word) \<le>s column_index
         then False
         else compare_values (row ! unat column_index) (cond_value condition)
                (operator_type condition))"

text \<open>
  \<^verbatim>\<open>select_where\<close>: the condition is validated before the file is read; the loop keeps
  the rows for which \<^verbatim>\<open>evaluate_condition\<close> answers true, in their order.
\<close>

definition select_where ::
  "MetadataManager \<Rightarrow> TableStorage \<Rightarrow> WhereCondition \<Rightarrow> error + Row list" where
  "select_where m ts condition =
     (case validate_where_condition m (tbl_name ts) condition of
        Inl e \<Rightarrow> Inl e
      | Inr u \<Rightarrow>
          (case select_all m ts of
             Inl e \<Rightarrow> Inl e
           | Inr all_rows \<Rightarrow>
               Inr (filter (\<lambda>row. evaluate_condition m ts row condition) all_rows)))"

section \<open>The CREATE TABLE production\<close>

text \<open>
  The token sequences of the production, written from the grammar and not from the
  parser: constraints, types, one column definition, the column list as the parser takes
  it (empty, or definitions separated by commas with an optional comma at the end), and
  the whole statement.
\<close>

inductive constraint_tokens :: "Token list \<Rightarrow> bool" where
  no_constraint: "constraint_tokens []"
| primary_key: "tok_type a = PRIMARY \<Longrightarrow> tok_type b = KEY \<Longrightarrow> constraint_tokens ts
    \<Longrightarrow> constraint_tokens (a # b # ts)"
| not_null: "tok_type a = NOT \<Longrightarrow> tok_type b = NULL_KEYWORD \<Longrightarrow> constraint_tokens ts
    \<Longrightarrow> constraint_tokens (a # b # ts)"

inductive type_tokens :: "Token list \<Rightarrow> bool" where
  integer_type: "tok_type a = INTEGER \<Longrightarrow> type_tokens [a]"
| boolean_type: "tok_type a = BOOLEAN \<Longrightarrow> type_tokens [a]"
| varchar_type: "tok_type a = VARCHAR \<Longrightarrow> tok_type b = LEFT_PAREN \<Longrightarrow> tok_type c = INTEGER_LITERAL
    \<Longrightarrow> stoi (tok_value c) = Inr n \<Longrightarrow> tok_type d = RIGHT_PAREN \<Longrightarrow> type_tokens [a, b, c, d]"

inductive column_def_tokens :: "Token list \<Rightarrow> bool" where
  column_def: "tok_type a = IDENTIFIER \<Longrightarrow> type_tokens ty \<Longrightarrow> constraint_tokens cs
    \<Longrightarrow> column_def_tokens (a # ty @ cs)"

inductive column_list_tokens :: "Token list \<Rightarrow> bool" where
  no_column: "column_list_tokens []"
| last_column: "column_def_tokens d \<Longrightarrow> column_list_tokens d"
| more_columns: "column_def_tokens d \<Longrightarrow> tok_type c = COMMA \<Longrightarrow> column_list_tokens ds
    \<Longrightarrow> column_list_tokens (d @ c # ds)"

definition create_table_tokens :: "Token list \<Rightarrow> bool" where
  "create_table_tokens p =
     (\<exists>c t n l body r. p = c # t # n # l # body @ [r]
        \<and> tok_type c = CREATE \<and> tok_type t = TABLE \<and> tok_type n = IDENTIFIER
        \<and> tok_type l = LEFT_PAREN \<and> column_list_tokens body \<and> tok_type r = RIGHT_PAREN)"

lemma peek_Cons [simp]: "Parser_peek (a # ts) = a"
  by (simp add: Parser_peek_def)

lemma peek_Nil [simp]: "tok_type (Parser_peek []) = END_OF_FILE"
  by (simp add: Parser_peek_def eof_token_def)

lemma advance_Cons [simp]: "Parser_advance (a # ts) = (a, ts)"
  by (simp add: Parser_advance_def)

lemma peek_type_iff:
  "ty \<noteq> END_OF_FILE \<Longrightarrow> tok_type (Parser_peek ts) = ty \<longleftrightarrow> (\<exists>a rest. ts = a # rest \<and> tok_type a = ty)"
  by (cases ts) auto

lemma match_Cons [simp]:
  "Parser_match ty (a # ts) = (if tok_type a = ty then (True, ts) else (False, a # ts))"
  by (simp add: Parser_match_def)

lemma match_Nil [simp]: "ty \<noteq> END_OF_FILE \<Longrightarrow> Parser_match ty [] = (False, [])"
  by (simp add: Parser_match_def)

lemma expect_Cons [simp]:
  "tok_type a = ty \<Longrightarrow> expect ty msg (a # ts) = Inr ts"
  by (simp add: expect_def)

lemma expect_Inr_iff:
  "ty \<noteq> END_OF_FILE \<Longrightarrow> expect ty msg ts = Inr ts' \<longleftrightarrow> (\<exists>a. ts = a # ts' \<and> tok_type a = ty)"
  by (cases ts) (auto simp: expect_def)

lemma parse_constraints_sound:
  "parse_constraints cs ts = Inr (cs', ts') \<Longrightarrow>
     \<exists>p. ts = p @ ts' \<and> constraint_tokens p
        \<and> tok_type (Parser_peek ts') \<noteq> PRIMARY \<and> tok_type (Parser_peek ts') \<noteq> NOT"
proof (induction cs ts rule: parse_constraints.induct)
  case (1 constraints ts)
  show ?case
  proof (cases "fst (Parser_match PRIMARY ts)")
    case True
    with "1.prems" obtain ts1 where
      e: "expect KEY ''Expected KEY after PRIMARY'' (snd (Parser_match PRIMARY ts)) = Inr ts1"
      and r: "parse_constraints (constraints @ [PRIMARY_KEY]) ts1 = Inr (cs', ts')"
      by (auto simp: parse_constraints.simps [of constraints ts] split: sum.splits)
    from True obtain a ts0 where ts: "ts = a # ts0" "tok_type a = PRIMARY"
      by (cases ts) (auto split: if_splits)
    from e ts obtain b where ts0: "ts0 = b # ts1" "tok_type b = KEY"
      by (auto simp: expect_Inr_iff)
    from "1.IH"(1) [OF True e r] obtain p where
      p: "ts1 = p @ ts'" "constraint_tokens p"
        "tok_type (Parser_peek ts') \<noteq> PRIMARY" "tok_type (Parser_peek ts') \<noteq> NOT"
      by blast
    have "ts = (a # b # p) @ ts'" using ts ts0 p by simp
    moreover have "constraint_tokens (a # b # p)"
      using ts ts0 p by (intro constraint_tokens.primary_key)
    ultimately show ?thesis using p by blast
  next
    case False
    note np = this
    show ?thesis
    proof (cases "fst (Parser_match NOT ts)")
      case True
      with np "1.prems" obtain ts1 where
        e: "expect NULL_KEYWORD ''Expected NULL after NOT'' (snd (Parser_match NOT ts)) = Inr ts1"
        and r: "parse_constraints (constraints @ [NOT_NULL]) ts1 = Inr (cs', ts')"
        by (auto simp: parse_constraints.simps [of constraints ts] split: sum.splits)
      from True obtain a ts0 where ts: "ts = a # ts0" "tok_type a = NOT"
        by (cases ts) (auto split: if_splits)
      from e ts obtain b where ts0: "ts0 = b # ts1" "tok_type b = NULL_KEYWORD"
        by (auto simp: expect_Inr_iff)
      from "1.IH"(2) [OF np True e r] obtain p where
        p: "ts1 = p @ ts'" "constraint_tokens p"
          "tok_type (Parser_peek ts') \<noteq> PRIMARY" "tok_type (Parser_peek ts') \<noteq> NOT"
        by blast
      have "ts = (a # b # p) @ ts'" using ts ts0 p by simp
      moreover have "constraint_tokens (a # b # p)"
        using ts ts0 p by (intro constraint_tokens.not_null)
      ultimately show ?thesis using p by blast
    next
      case False
      with np "1.prems" have "ts' = ts"
        by (simp add: parse_constraints.simps [of constraints ts])
      moreover from np False have "tok_type (Parser_peek ts) \<noteq> PRIMARY" "tok_type (Parser_peek ts) \<noteq> NOT"
        by (auto simp: Parser_match_def split: if_splits)
      ultimately show ?thesis
        using constraint_tokens.no_constraint by fastforce
    qed
  qed
qed

lemma parse_constraints_complete:
  "constraint_tokens p \<Longrightarrow> tok_type (Parser_peek rest) \<noteq> PRIMARY
     \<Longrightarrow> tok_type (Parser_peek rest) \<noteq> NOT
     \<Longrightarrow> \<exists>cs'. parse_constraints cs (p @ rest) = Inr (cs', rest)"
proof (induction p arbitrary: cs rule: constraint_tokens.induct)
  case no_constraint
  then show ?case
    by (simp add: parse_constraints.simps [of cs rest] Parser_match_def)
next
  case (primary_key a b ts)
  from primary_key.IH [OF primary_key.prems, of "cs @ [PRIMARY_KEY]"] primary_key.hyps
  show ?case
    by (simp add: parse_constraints.simps [of cs "a # b # ts @ rest"])
next
  case (not_null a b ts)
  from not_null.IH [OF not_null.prems, of "cs @ [NOT_NULL]"] not_null.hyps
  show ?case
    by (simp add: parse_constraints.simps [of cs "a # b # ts @ rest"])
qed

lemma parse_data_type_sound:
  "parse_data_type n ts = Inr (r, ts') \<Longrightarrow> \<exists>p. ts = p @ ts' \<and> type_tokens p"
proof (cases ts)
  case Nil
  assume "parse_data_type n ts = Inr (r, ts')"
  with Nil show ?thesis by (simp add: parse_data_type_def)
next
  case (Cons a ts0)
  assume h: "parse_data_type n ts = Inr (r, ts')"
  consider "tok_type a = INTEGER" | "tok_type a = BOOLEAN" | "tok_type a = VARCHAR"
    | "tok_type a \<noteq> INTEGER" "tok_type a \<noteq> BOOLEAN" "tok_type a \<noteq> VARCHAR"
    by blast
  then show ?thesis
  proof cases
    case 1
    with h Cons have "ts' = ts0" by (simp add: parse_data_type_def)
    with Cons 1 show ?thesis using type_tokens.integer_type [of a] by auto
  next
    case 2
    with h Cons have "ts' = ts0" by (simp add: parse_data_type_def)
    with Cons 2 show ?thesis using type_tokens.boolean_type [of a] by auto
  next
    case 3
    with h Cons obtain ts1 where e1: "expect LEFT_PAREN ''Expected '(' after VARCHAR'' ts0 = Inr ts1"
      by (auto simp: parse_data_type_def split: sum.splits)
    then obtain b where b: "ts0 = b # ts1" "tok_type b = LEFT_PAREN"
      by (auto simp: expect_Inr_iff)
    from h Cons 3 e1 have il: "tok_type (Parser_peek ts1) = INTEGER_LITERAL"
      by (auto simp: parse_data_type_def split: if_splits)
    then obtain c ts2 where c: "ts1 = c # ts2" "tok_type c = INTEGER_LITERAL"
      by (auto simp: peek_type_iff)
    from h Cons 3 e1 c obtain m where m: "stoi (tok_value c) = Inr m"
      and e2: "expect RIGHT_PAREN ''Expected ')' after VARCHAR length'' ts2 = Inr ts'"
      by (auto simp: parse_data_type_def split: sum.splits)
    from e2 obtain d where d: "ts2 = d # ts'" "tok_type d = RIGHT_PAREN"
      by (auto simp: expect_Inr_iff)
    have "type_tokens [a, b, c, d]"
      using 3 b c m d by (intro type_tokens.varchar_type)
    moreover have "ts = [a, b, c, d] @ ts'" using Cons b c d by simp
    ultimately show ?thesis by blast
  next
    case 4
    with h Cons show ?thesis by (simp add: parse_data_type_def)
  qed
qed

lemma parse_data_type_complete:
  "type_tokens p \<Longrightarrow> \<exists>r. parse_data_type n (p @ rest) = Inr (r, rest)"
  by (induction rule: type_tokens.induct) (auto simp: parse_data_type_def)

lemma parse_column_definition_sound:
  assumes "parse_column_definition ts = Inr (c, ts')"
  shows "\<exists>p. ts = p @ ts' \<and> column_def_tokens p
        \<and> tok_type (Parser_peek ts') \<noteq> PRIMARY \<and> tok_type (Parser_peek ts') \<noteq> NOT"
proof -
  from assms have "tok_type (Parser_peek ts) = IDENTIFIER"
    by (auto simp: parse_column_definition_def split: if_splits)
  then obtain a ts0 where a: "ts = a # ts0" "tok_type a = IDENTIFIER"
    by (auto simp: peek_type_iff)
  from assms a obtain r ts1 cs where
    d: "parse_data_type 0 ts0 = Inr (r, ts1)" and k: "parse_constraints [] ts1 = Inr (cs, ts')"
    by (auto simp: parse_column_definition_def split: sum.splits prod.splits)
  from parse_data_type_sound [OF d] obtain ty where ty: "ts0 = ty @ ts1" "type_tokens ty"
    by blast
  from parse_constraints_sound [OF k] obtain p where p: "ts1 = p @ ts'" "constraint_tokens p"
    "tok_type (Parser_peek ts') \<noteq> PRIMARY" "tok_type (Parser_peek ts') \<noteq> NOT"
    by blast
  have "column_def_tokens (a # ty @ p)"
    using a ty p by (intro column_def_tokens.column_def)
  moreover have "ts = (a # ty @ p) @ ts'" using a ty p by simp
  ultimately show ?thesis using p by blast
qed

lemma parse_column_definition_complete:
  assumes "column_def_tokens p" "tok_type (Parser_peek rest) \<noteq> PRIMARY"
    "tok_type (Parser_peek rest) \<noteq> NOT"
  shows "\<exists>c. parse_column_definition (p @ rest) = Inr (c, rest)"
  using assms(1)
proof cases
  case (column_def a ty cs)
  from parse_data_type_complete [OF column_def(3), of 0 "cs @ rest"]
  obtain r where r: "parse_data_type 0 (ty @ cs @ rest) = Inr (r, cs @ rest)" by blast
  from parse_constraints_complete [OF column_def(4) assms(2,3), of "[]"]
  obtain cs' where cs': "parse_constraints [] (cs @ rest) = Inr (cs', rest)" by blast
  show ?thesis
    using column_def r cs' by (cases r) (simp add: parse_column_definition_def)
qed


lemma column_def_tokens_head:
  "column_def_tokens d \<Longrightarrow> \<exists>a ts. d = a # ts \<and> tok_type a = IDENTIFIER"
  by (auto elim: column_def_tokens.cases)

lemma parse_create_table_loop_sound:
  "parse_create_table_loop cols ts = Inr (cols', ts') \<Longrightarrow>
     \<exists>p. ts = p @ ts' \<and> column_list_tokens p"
proof (induction cols ts rule: parse_create_table_loop.induct)
  case (1 cols ts)
  show ?case
  proof (cases "tok_type (Parser_peek ts) = RIGHT_PAREN")
    case True
    with "1.prems" have "ts' = ts"
      by (simp add: parse_create_table_loop.simps [of cols ts])
    then show ?thesis using column_list_tokens.no_column by fastforce
  next
    case False
    with "1.prems" obtain column ts1 where
      d: "parse_column_definition ts = Inr (column, ts1)"
      by (auto simp: parse_create_table_loop.simps [of cols ts] split: sum.splits)
    from parse_column_definition_sound [OF d] obtain p where
      p: "ts = p @ ts1" "column_def_tokens p" by blast
    show ?thesis
    proof (cases "fst (Parser_match COMMA ts1)")
      case True
      then obtain c ts2 where c: "ts1 = c # ts2" "tok_type c = COMMA"
        by (cases ts1) (auto split: if_splits)
      from "1.prems" False d True have
        r: "parse_create_table_loop (cols @ [column]) (snd (Parser_match COMMA ts1)) = Inr (cols', ts')"
        by (simp add: parse_create_table_loop.simps [of cols ts])
      from "1.IH" [OF False d refl True r] c obtain q where
        q: "ts2 = q @ ts'" "column_list_tokens q" by auto
      have "column_list_tokens (p @ c # q)"
        using p c q by (intro column_list_tokens.more_columns)
      moreover have "ts = (p @ c # q) @ ts'" using p c q by simp
      ultimately show ?thesis by blast
    next
      case nc: False
      with "1.prems" False d have "ts' = ts1"
        by (simp add: parse_create_table_loop.simps [of cols ts])
      with p show ?thesis using column_list_tokens.last_column by blast
    qed
  qed
qed

lemma parse_create_table_loop_complete:
  "column_list_tokens p \<Longrightarrow> tok_type (Parser_peek rest) = RIGHT_PAREN
     \<Longrightarrow> \<exists>cols'. parse_create_table_loop cols (p @ rest) = Inr (cols', rest)"
proof (induction p arbitrary: cols rule: column_list_tokens.induct)
  case no_column
  then show ?case by (simp add: parse_create_table_loop.simps [of cols rest])
next
  case (last_column d)
  from column_def_tokens_head [OF last_column.hyps] obtain a ts where
    a: "d = a # ts" "tok_type a = IDENTIFIER" by blast
  from parse_column_definition_complete [OF last_column.hyps, of rest] last_column.prems
  obtain c where c: "parse_column_definition (d @ rest) = Inr (c, rest)" by auto
  from last_column.prems have "\<not> fst (Parser_match COMMA rest)"
    by (simp add: Parser_match_def)
  moreover from a have "tok_type (Parser_peek (d @ rest)) \<noteq> RIGHT_PAREN" by simp
  ultimately show ?case using c
    by (simp add: parse_create_table_loop.simps [of cols "d @ rest"])
next
  case (more_columns d c ds)
  from column_def_tokens_head [OF more_columns.hyps(1)] obtain a ts where
    a: "d = a # ts" "tok_type a = IDENTIFIER" by blast
  from parse_column_definition_complete [OF more_columns.hyps(1), of "c # ds @ rest"]
    more_columns.hyps(2)
  obtain col where col: "parse_column_definition (d @ c # ds @ rest) = Inr (col, c # ds @ rest)"
    by auto
  from more_columns.IH [OF more_columns.prems, of "cols @ [col]"] obtain cols' where
    "parse_create_table_loop (cols @ [col]) (ds @ rest) = Inr (cols', rest)" by blast
  moreover from a have "tok_type (Parser_peek (d @ c # ds @ rest)) \<noteq> RIGHT_PAREN" by simp
  ultimately show ?case using col more_columns.hyps(2)
    by (simp add: parse_create_table_loop.simps [of cols "d @ c # ds @ rest"])
qed

lemma parse_create_table_sound:
  assumes "parse_create_table ts = Inr (stmt, ts')"
  shows "\<exists>p. ts = p @ ts' \<and> create_table_tokens p"
proof -
  from assms obtain ts1 ts2 ts3 cols ts4 where
    e1: "expect CREATE ''Expected CREATE'' ts = Inr ts1"
    and e2: "expect TABLE ''Expected TABLE'' ts1 = Inr ts2"
    and i: "tok_type (Parser_peek ts2) = IDENTIFIER"
    and e3: "expect LEFT_PAREN (''Expected '('' @ [CHR 0x27]) (snd (Parser_advance ts2)) = Inr ts3"
    and l: "parse_create_table_loop [] ts3 = Inr (cols, ts4)"
    and e4: "expect RIGHT_PAREN (''Expected ')'' @ [CHR 0x27]) ts4 = Inr ts'"
    by (auto simp: parse_create_table_def split: sum.splits if_splits prod.splits)
  from e1 obtain c where c: "ts = c # ts1" "tok_type c = CREATE"
    by (auto simp: expect_Inr_iff)
  from e2 obtain t where t: "ts1 = t # ts2" "tok_type t = TABLE"
    by (auto simp: expect_Inr_iff)
  from i obtain n ts2' where n: "ts2 = n # ts2'" "tok_type n = IDENTIFIER"
    by (auto simp: peek_type_iff)
  from e3 n obtain lp where lp: "ts2' = lp # ts3" "tok_type lp = LEFT_PAREN"
    by (auto simp: expect_Inr_iff)
  from e4 obtain r where r: "ts4 = r # ts'" "tok_type r = RIGHT_PAREN"
    by (auto simp: expect_Inr_iff)
  from parse_create_table_loop_sound [OF l] obtain body where
    body: "ts3 = body @ ts4" "column_list_tokens body" by blast
  have "ts = (c # t # n # lp # body @ [r]) @ ts'"
    using c t n lp body r by simp
  moreover have "create_table_tokens (c # t # n # lp # body @ [r])"
    unfolding create_table_tokens_def using c t n lp body r by blast
  ultimately show ?thesis by blast
qed

lemma parse_create_table_complete:
  assumes "create_table_tokens p"
  shows "\<exists>name cols. parse_create_table (p @ rest) = Inr (CreateTableStatement name cols, rest)"
proof -
  from assms obtain c t n l body r where
    p: "p = c # t # n # l # body @ [r]" and
    ty: "tok_type c = CREATE" "tok_type t = TABLE" "tok_type n = IDENTIFIER"
      "tok_type l = LEFT_PAREN" "tok_type r = RIGHT_PAREN" and
    body: "column_list_tokens body"
    unfolding create_table_tokens_def by blast
  from parse_create_table_loop_complete [OF body, of "r # rest" "[]"] ty obtain cols where
    "parse_create_table_loop [] (body @ r # rest) = Inr (cols, r # rest)" by auto
  with p ty show ?thesis
    by (simp add: parse_create_table_def)
qed

lemma create_table_tokens_head:
  "create_table_tokens p \<Longrightarrow> tok_type (Parser_peek (p @ rest)) = CREATE"
  by (auto simp: create_table_tokens_def)

lemma parse_drop_table_result:
  "parse_drop_table ts = Inr (stmt, ts') \<Longrightarrow> \<exists>name. stmt = DropTableStatement name"
  by (auto simp: parse_drop_table_def split: sum.splits if_splits)

lemma parse_insert_result:
  "parse_insert ts = Inr (stmt, ts') \<Longrightarrow> \<exists>name vals. stmt = InsertStatement name vals"
  by (auto simp: parse_insert_def split: sum.splits if_splits prod.splits)

lemma parse_select_result:
  "parse_select ts = Inr (stmt, ts') \<Longrightarrow> \<exists>name a w. stmt = SelectStatement name a w"
  by (auto simp: parse_select_def split: sum.splits if_splits prod.splits)

lemma stmt_of_Some:
  "stmt_of r = Inr (Some stmt) \<longleftrightarrow> (\<exists>ts. r = Inr (stmt, ts))"
  by (auto simp: stmt_of_def split: sum.splits)

text \<open>
  C5 (amended). \<open>parse\<close> returns a CREATE TABLE statement exactly when the token sequence
  begins with tokens matching
  \<^verbatim>\<open>CREATE TABLE <id> ( [ <columnDef> (, <columnDef>)* [,] ] )\<close>, where a column
  definition is \<^verbatim>\<open><id> <type> <constraint>*\<close>, a type is \<^verbatim>\<open>INTEGER\<close>, \<^verbatim>\<open>BOOLEAN\<close> or
  \<^verbatim>\<open>VARCHAR ( <intLiteral> )\<close> with a literal that \<^verbatim>\<open>std::stoi\<close> converts, and a
  constraint is \<^verbatim>\<open>PRIMARY KEY\<close> or \<^verbatim>\<open>NOT NULL\<close>. The column list may be empty and may end
  in a comma; the tokens after the closing parenthesis are not looked at.
\<close>

theorem parse_create_table_accepts_iff:
  "(\<exists>name cols. parse ts = Inr (Some (CreateTableStatement name cols)))
   \<longleftrightarrow> (\<exists>p rest. ts = p @ rest \<and> create_table_tokens p)"
proof
  assume "\<exists>name cols. parse ts = Inr (Some (CreateTableStatement name cols))"
  then obtain name cols where h: "parse ts = Inr (Some (CreateTableStatement name cols))"
    by blast
  then have "\<exists>ts'. parse_create_table ts = Inr (CreateTableStatement name cols, ts')"
    by (auto simp: parse_def stmt_of_Some split: if_splits
        dest: parse_drop_table_result parse_insert_result parse_select_result)
  then show "\<exists>p rest. ts = p @ rest \<and> create_table_tokens p"
    using parse_create_table_sound by blast
next
  assume "\<exists>p rest. ts = p @ rest \<and> create_table_tokens p"
  then obtain p rest where p: "ts = p @ rest" "create_table_tokens p" by blast
  from parse_create_table_complete [OF p(2), of rest] obtain name cols where
    "parse_create_table ts = Inr (CreateTableStatement name cols, rest)" using p(1) by blast
  moreover have "tok_type (Parser_peek ts) = CREATE"
    using create_table_tokens_head [OF p(2)] p(1) by simp
  ultimately show "\<exists>name cols. parse ts = Inr (Some (CreateTableStatement name cols))"
    by (simp add: parse_def is_at_end_def stmt_of_def)
qed

lemmas parser_eval =
  parse_def is_at_end_def stmt_of_def parse_create_table_def parse_create_table_loop.simps
  parse_column_definition_def parse_data_type_def parse_constraints.simps new_Token_def
  expect_def

text \<open>
  C5 as claimed asks for at least one column definition and no trailing comma, both as a
  \<^verbatim>\<open>ParseError\<close>. The loop of \<^verbatim>\<open>parse_create_table\<close> leaves at a closing parenthesis
  before it reads a column, so \<^verbatim>\<open>CREATE TABLE t ()\<close> and \<^verbatim>\<open>CREATE TABLE t (a INTEGER,)\<close>
  are both parsed.
\<close>

theorem parse_create_table_empty_list_counterexample:
  "parse [new_Token CREATE ''CREATE'', new_Token TABLE ''TABLE'', new_Token IDENTIFIER ''t'',
          new_Token LEFT_PAREN ''('', new_Token RIGHT_PAREN '')'', new_Token END_OF_FILE []]
     = Inr (Some (CreateTableStatement ''t'' []))
   \<and> parse [new_Token CREATE ''CREATE'', new_Token TABLE ''TABLE'', new_Token IDENTIFIER ''t'',
          new_Token LEFT_PAREN ''('', new_Token IDENTIFIER ''a'', new_Token INTEGER ''INTEGER'',
          new_Token COMMA '','', new_Token RIGHT_PAREN '')'', new_Token END_OF_FILE []]
     = Inr (Some (CreateTableStatement ''t''
         [\<lparr>col_name = ''a'', col_type = DT_INTEGER, varchar_length = 0,
           is_primary_key = False, is_not_null = False\<rparr>]))"
  by (simp add: parser_eval)

text \<open>
  A statement with two columns, constraints and a trailing semicolon: parsed, and matched
  by the production.
\<close>

theorem parse_create_table_accepts_iff_witness:
  "parse [new_Token CREATE ''CREATE'', new_Token TABLE ''TABLE'', new_Token IDENTIFIER ''t'',
          new_Token LEFT_PAREN ''('',
          new_Token IDENTIFIER ''a'', new_Token INTEGER ''INTEGER'',
          new_Token PRIMARY ''PRIMARY'', new_Token KEY ''KEY'', new_Token COMMA '','',
          new_Token IDENTIFIER ''b'', new_Token VARCHAR ''VARCHAR'', new_Token LEFT_PAREN ''('',
          new_Token INTEGER_LITERAL ''50'', new_Token RIGHT_PAREN '')'',
          new_Token NOT ''NOT'', new_Token NULL_KEYWORD ''NULL'',
          new_Token RIGHT_PAREN '')'', new_Token SEMICOLON '';'', new_Token END_OF_FILE []]
     = Inr (Some (CreateTableStatement ''t''
         [\<lparr>col_name = ''a'', col_type = DT_INTEGER, varchar_length = 0,
           is_primary_key = True, is_not_null = False\<rparr>,
          \<lparr>col_name = ''b'', col_type = DT_VARCHAR, varchar_length = 50,
           is_primary_key = False, is_not_null = True\<rparr>]))
   \<and> (\<exists>p rest.
        [new_Token CREATE ''CREATE'', new_Token TABLE ''TABLE'', new_Token IDENTIFIER ''t'',
          new_Token LEFT_PAREN ''('',
          new_Token IDENTIFIER ''a'', new_Token INTEGER ''INTEGER'',
          new_Token PRIMARY ''PRIMARY'', new_Token KEY ''KEY'', new_Token COMMA '','',
          new_Token IDENTIFIER ''b'', new_Token VARCHAR ''VARCHAR'', new_Token LEFT_PAREN ''('',
          new_Token INTEGER_LITERAL ''50'', new_Token RIGHT_PAREN '')'',
          new_Token NOT ''NOT'', new_Token NULL_KEYWORD ''NULL'',
          new_Token RIGHT_PAREN '')'', new_Token SEMICOLON '';'', new_Token END_OF_FILE []]
         = p @ rest \<and> create_table_tokens p)"
proof -
  let ?ts = "[new_Token CREATE ''CREATE'', new_Token TABLE ''TABLE'', new_Token IDENTIFIER ''t'',
          new_Token LEFT_PAREN ''('',
          new_Token IDENTIFIER ''a'', new_Token INTEGER ''INTEGER'',
          new_Token PRIMARY ''PRIMARY'', new_Token KEY ''KEY'', new_Token COMMA '','',
          new_Token IDENTIFIER ''b'', new_Token VARCHAR ''VARCHAR'', new_Token LEFT_PAREN ''('',
          new_Token INTEGER_LITERAL ''50'', new_Token RIGHT_PAREN '')'',
          new_Token NOT ''NOT'', new_Token NULL_KEYWORD ''NULL'',
          new_Token RIGHT_PAREN '')'', new_Token SEMICOLON '';'', new_Token END_OF_FILE []]"
  have s: "stoi ''50'' = Inr 50"
    by (simp add: stoi_def c_str_def isspace_def isdigit_def digits_value_def digit_val_def)
  have p: "parse ?ts = Inr (Some (CreateTableStatement ''t''
         [\<lparr>col_name = ''a'', col_type = DT_INTEGER, varchar_length = 0,
           is_primary_key = True, is_not_null = False\<rparr>,
          \<lparr>col_name = ''b'', col_type = DT_VARCHAR, varchar_length = 50,
           is_primary_key = False, is_not_null = True\<rparr>]))"
    by (simp add: parser_eval s)
  then have "\<exists>name cols. parse ?ts = Inr (Some (CreateTableStatement name cols))"
    by blast
  then have "\<exists>p rest. ?ts = p @ rest \<and> create_table_tokens p"
    using parse_create_table_accepts_iff [of ?ts] by blast
  with p show ?thesis by blast
qed

section \<open>The leading token of a statement\<close>

text \<open>
  C6 (amended). A token sequence whose leading token is none of CREATE, DROP, INSERT,
  SELECT and not the end-of-input token raises the \<^verbatim>\<open>ParseError\<close> "Expected SQL keyword".
  A sequence that starts with the end-of-input token, or holds no token at all, raises
  nothing: \<open>parse\<close> returns no statement (\<^verbatim>\<open>nullptr\<close>).
\<close>

theorem parse_unrecognized_leading_token:
  "(tok_type t \<notin> {CREATE, DROP, INSERT, SELECT, END_OF_FILE}
      \<longrightarrow> parse (t # rest) = Inl (ParseError ''Expected SQL keyword''))
   \<and> (tok_type t = END_OF_FILE \<longrightarrow> parse (t # rest) = Inr None)
   \<and> parse [] = Inr None"
  by (simp add: parse_def is_at_end_def Parser_peek_def eof_token_def)

text \<open>
  An identifier and an unknown character at the head of the sequence raise; an
  end-of-input token at the head gives no statement, whatever follows it.
\<close>

theorem parse_unrecognized_leading_token_witness:
  "parse [new_Token IDENTIFIER ''users'', new_Token SEMICOLON '';'', new_Token END_OF_FILE []]
     = Inl (ParseError ''Expected SQL keyword'')
   \<and> parse [new_Token UNKNOWN ''#'', new_Token END_OF_FILE []] = Inl (ParseError ''Expected SQL keyword'')
   \<and> parse [new_Token END_OF_FILE [], new_Token SELECT ''SELECT''] = Inr None"
  using parse_unrecognized_leading_token
    [of "new_Token IDENTIFIER ''users''" "[new_Token SEMICOLON '';'', new_Token END_OF_FILE []]"]
    parse_unrecognized_leading_token [of "new_Token UNKNOWN ''#''" "[new_Token END_OF_FILE []]"]
    parse_unrecognized_leading_token [of "new_Token END_OF_FILE []" "[new_Token SELECT ''SELECT'']"]
  by (simp add: new_Token_def)

text \<open>
  C6 as claimed includes the sequence that holds only the end-of-input token among those
  that raise; \<open>parse\<close> returns \<^verbatim>\<open>nullptr\<close> there.
\<close>

theorem parse_end_of_input_counterexample:
  "tok_type (new_Token END_OF_FILE []) \<noteq> CREATE \<and> tok_type (new_Token END_OF_FILE []) \<noteq> DROP
   \<and> tok_type (new_Token END_OF_FILE []) \<noteq> INSERT \<and> tok_type (new_Token END_OF_FILE []) \<noteq> SELECT
   \<and> parse [new_Token END_OF_FILE []] = Inr None"
  by (simp add: parse_def is_at_end_def new_Token_def Parser_peek_def)

section \<open>Creating a table\<close>

text \<open>
  The conditions under which the catalog refuses a new table, in the words of the
  specification: the name is registered already or empty, there is no column, a column
  name is empty or occurs twice, more than one column is a primary key, or a VARCHAR
  column has a length that is not positive.
\<close>

definition create_table_rejects :: "MetadataManager \<Rightarrow> string \<Rightarrow> Column list \<Rightarrow> bool" where
  "create_table_rejects m table_name cols =
     (table_exists m table_name \<or> table_name = [] \<or> cols = []
      \<or> list_ex (\<lambda>c. col_name c = []) cols
      \<or> \<not> distinct (map col_name cols)
      \<or> 1 < length (filter is_primary_key cols)
      \<or> list_ex (\<lambda>c. col_type c = DT_VARCHAR \<and> sint (varchar_length c) \<le> 0) cols)"

lemma create_table_loop_Inr_iff:
  "(\<exists>k'. create_table_loop names k cols = Inr k') \<longleftrightarrow>
     \<not> list_ex (\<lambda>c. col_name c = []) cols
     \<and> distinct (map col_name cols) \<and> set (map col_name cols) \<inter> set names = {}
     \<and> \<not> list_ex (\<lambda>c. col_type c = DT_VARCHAR \<and> sint (varchar_length c) \<le> 0) cols"
proof (induction cols arbitrary: names k)
  case Nil
  then show ?case by simp
next
  case (Cons c cols)
  show ?case
    using Cons.IH [of "names @ [col_name c]"
        "if is_primary_key c then k + 1 else k"]
    by (auto simp: Let_def)
qed

lemma create_table_loop_count:
  "create_table_loop names k cols = Inr k' \<Longrightarrow> k' = k + int (length (filter is_primary_key cols))"
proof (induction cols arbitrary: names k)
  case Nil
  then show ?case by simp
next
  case (Cons c cols)
  from Cons.prems
  have "create_table_loop (names @ [col_name c]) (if is_primary_key c then k + 1 else k) cols = Inr k'"
    by (auto simp: Let_def split: if_splits)
  from Cons.IH [OF this] show ?case by simp
qed

lemma create_table_validation_error:
  "create_table_rejects m table_name cols \<Longrightarrow>
     \<exists>e. create_table m table_name cols = (Inl e, m)"
proof -
  assume r: "create_table_rejects m table_name cols"
  show ?thesis
  proof (cases "create_table_loop [] 0 cols")
    case (Inl e)
    then show ?thesis by (simp add: create_table_def)
  next
    case (Inr k)
    from create_table_loop_count [OF Inr] have k: "k = int (length (filter is_primary_key cols))"
      by simp
    from Inr create_table_loop_Inr_iff [of "[]" 0 cols]
    have "\<not> list_ex (\<lambda>c. col_name c = []) cols" "distinct (map col_name cols)"
      "\<not> list_ex (\<lambda>c. col_type c = DT_VARCHAR \<and> sint (varchar_length c) \<le> 0) cols"
      by auto
    with r have "table_exists m table_name \<or> table_name = [] \<or> cols = []
        \<or> 1 < length (filter is_primary_key cols)"
      by (auto simp: create_table_rejects_def)
    with Inr k show ?thesis by (auto simp: create_table_def)
  qed
qed

lemma create_table_validated:
  "\<not> create_table_rejects m table_name cols \<Longrightarrow>
     create_table m table_name cols =
       save_metadata (m\<lparr>tables := AList.update table_name
                          \<lparr>schema_name = table_name, columns = cols\<rparr> (tables m)\<rparr>)"
proof -
  assume r: "\<not> create_table_rejects m table_name cols"
  then have "\<exists>k'. create_table_loop [] 0 cols = Inr k'"
    using create_table_loop_Inr_iff [of "[]" 0 cols] by (simp add: create_table_rejects_def)
  then obtain k where k: "create_table_loop [] 0 cols = Inr k" by blast
  from create_table_loop_count [OF k] r have "\<not> 1 < k"
    by (simp add: create_table_rejects_def)
  with k r show ?thesis
    by (simp add: create_table_def create_table_rejects_def)
qed

text \<open>
  C3 (amended). \<open>create_table\<close> raises an error if and only if one of the conditions of the
  specification holds or the metadata file cannot be opened for writing. When none of the
  conditions holds, the schema is in the registry afterwards (also when the file cannot be
  written), and when the file can be written it holds the text of the new registry.
\<close>

theorem create_table_raises_iff:
  "(fst (create_table m table_name cols) \<noteq> Inr ()) =
     (create_table_rejects m table_name cols \<or> \<not> file_writable m)
   \<and> (\<not> create_table_rejects m table_name cols \<longrightarrow>
        map_of (tables (snd (create_table m table_name cols))) =
          (map_of (tables m))(table_name \<mapsto> \<lparr>schema_name = table_name, columns = cols\<rparr>)
        \<and> (file_writable m \<longrightarrow>
             file_content (snd (create_table m table_name cols)) =
               Some (metadata_text (tables (snd (create_table m table_name cols))))))"
proof (cases "create_table_rejects m table_name cols")
  case True
  from create_table_validation_error [OF True] show ?thesis using True by auto
next
  case False
  from create_table_validated [OF False] show ?thesis using False
    by (auto simp: save_metadata_def update_conv')
qed

text \<open>
  A table with one column on an empty catalog whose file can be written: created,
  registered and saved. The same name again: refused.
\<close>

theorem create_table_raises_iff_witness:
  "fst (create_table \<lparr>tables = [], file_content = None, file_writable = True\<rparr> ''t''
         [\<lparr>col_name = ''a'', col_type = DT_INTEGER, varchar_length = 0,
           is_primary_key = True, is_not_null = False\<rparr>]) = Inr ()
   \<and> map_of (tables (snd (create_table \<lparr>tables = [], file_content = None, file_writable = True\<rparr> ''t''
         [\<lparr>col_name = ''a'', col_type = DT_INTEGER, varchar_length = 0,
           is_primary_key = True, is_not_null = False\<rparr>]))) ''t''
       = Some \<lparr>schema_name = ''t'', columns =
           [\<lparr>col_name = ''a'', col_type = DT_INTEGER, varchar_length = 0,
             is_primary_key = True, is_not_null = False\<rparr>]\<rparr>
   \<and> file_content (snd (create_table \<lparr>tables = [], file_content = None, file_writable = True\<rparr> ''t''
         [\<lparr>col_name = ''a'', col_type = DT_INTEGER, varchar_length = 0,
           is_primary_key = True, is_not_null = False\<rparr>]))
       = Some (metadata_text (tables (snd (create_table
           \<lparr>tables = [], file_content = None, file_writable = True\<rparr> ''t''
           [\<lparr>col_name = ''a'', col_type = DT_INTEGER, varchar_length = 0,
             is_primary_key = True, is_not_null = False\<rparr>]))))
   \<and> fst (create_table
         \<lparr>tables = [(''t'', \<lparr>schema_name = ''t'', columns = []\<rparr>)], file_content = None,
          file_writable = True\<rparr> ''t''
         [\<lparr>col_name = ''a'', col_type = DT_INTEGER, varchar_length = 0,
           is_primary_key = True, is_not_null = False\<rparr>]) \<noteq> Inr ()"
proof -
  let ?c = "[\<lparr>col_name = ''a'', col_type = DT_INTEGER, varchar_length = 0,
           is_primary_key = True, is_not_null = False\<rparr>]"
  let ?m = "\<lparr>tables = [], file_content = None, file_writable = True\<rparr>"
  let ?m' = "\<lparr>tables = [(''t'', \<lparr>schema_name = ''t'', columns = []\<rparr>)], file_content = None,
          file_writable = True\<rparr>"
  have a: "\<not> create_table_rejects ?m ''t'' ?c"
    by (simp add: create_table_rejects_def table_exists_def)
  have b: "create_table_rejects ?m' ''t'' ?c"
    by (simp add: create_table_rejects_def table_exists_def)
  from create_table_raises_iff [of ?m "''t''" ?c] a
    create_table_raises_iff [of ?m' "''t''" ?c] b
  show ?thesis by simp
qed

text \<open>
  C3 as claimed lists the validation conditions only. A valid table on a catalog whose
  metadata file cannot be opened for writing raises the error of \<^verbatim>\<open>save_metadata\<close>.
\<close>

theorem create_table_unwritable_counterexample:
  "\<not> create_table_rejects \<lparr>tables = [], file_content = None, file_writable = False\<rparr> ''t''
       [\<lparr>col_name = ''a'', col_type = DT_INTEGER, varchar_length = 0,
         is_primary_key = True, is_not_null = False\<rparr>]
   \<and> fst (create_table \<lparr>tables = [], file_content = None, file_writable = False\<rparr> ''t''
       [\<lparr>col_name = ''a'', col_type = DT_INTEGER, varchar_length = 0,
         is_primary_key = True, is_not_null = False\<rparr>])
     = Inl (RuntimeError ''Cannot open metadata file for writing'')"
  by (simp add: create_table_rejects_def table_exists_def create_table_def save_metadata_def)

text \<open>
  C10 (amended). When \<open>create_table\<close> raises an error, the metadata file is not rewritten.
  When the error comes from one of the validation checks, the whole state of the catalog
  is unchanged. When the checks pass and the error comes from \<^verbatim>\<open>save_metadata\<close>, the
  registry holds the new schema already.
\<close>

theorem create_table_error_state:
  "fst (create_table m table_name cols) = Inl e \<Longrightarrow>
     file_content (snd (create_table m table_name cols)) = file_content m
     \<and> file_writable (snd (create_table m table_name cols)) = file_writable m
     \<and> (create_table_rejects m table_name cols \<longrightarrow> snd (create_table m table_name cols) = m)
     \<and> (\<not> create_table_rejects m table_name cols \<longrightarrow>
          tables (snd (create_table m table_name cols)) =
            AList.update table_name \<lparr>schema_name = table_name, columns = cols\<rparr> (tables m))"
proof (cases "create_table_rejects m table_name cols")
  case True
  from create_table_validation_error [OF True] show ?thesis using True by auto
next
  case False
  assume "fst (create_table m table_name cols) = Inl e"
  with create_table_validated [OF False] show ?thesis using False
    by (auto simp: save_metadata_def split: if_splits)
qed

text \<open>
  A second primary key: refused, and the catalog is as before. An unwritable file:
  refused, and the registry has the table.
\<close>

theorem create_table_error_state_witness:
  "create_table \<lparr>tables = [], file_content = Some ''# old'', file_writable = True\<rparr> ''t''
       [\<lparr>col_name = ''a'', col_type = DT_INTEGER, varchar_length = 0,
         is_primary_key = True, is_not_null = False\<rparr>,
        \<lparr>col_name = ''b'', col_type = DT_INTEGER, varchar_length = 0,
         is_primary_key = True, is_not_null = False\<rparr>]
     = (Inl (RuntimeError ''Table can have at most one primary key''),
        \<lparr>tables = [], file_content = Some ''# old'', file_writable = True\<rparr>)
   \<and> tables (snd (create_table \<lparr>tables = [], file_content = Some ''# old'', file_writable = False\<rparr>
       ''t'' [\<lparr>col_name = ''a'', col_type = DT_INTEGER, varchar_length = 0,
         is_primary_key = True, is_not_null = False\<rparr>]))
     = [(''t'', \<lparr>schema_name = ''t'', columns =
           [\<lparr>col_name = ''a'', col_type = DT_INTEGER, varchar_length = 0,
             is_primary_key = True, is_not_null = False\<rparr>]\<rparr>)]
   \<and> file_content (snd (create_table \<lparr>tables = [], file_content = Some ''# old'', file_writable = False\<rparr>
       ''t'' [\<lparr>col_name = ''a'', col_type = DT_INTEGER, varchar_length = 0,
         is_primary_key = True, is_not_null = False\<rparr>])) = Some ''# old''"
proof -
  let ?a = "\<lparr>col_name = ''a'', col_type = DT_INTEGER, varchar_length = 0,
         is_primary_key = True, is_not_null = False\<rparr>"
  let ?b = "\<lparr>col_name = ''b'', col_type = DT_INTEGER, varchar_length = 0,
         is_primary_key = True, is_not_null = False\<rparr>"
  let ?m = "\<lparr>tables = [], file_content = Some ''# old'', file_writable = True\<rparr>"
  let ?u = "\<lparr>tables = [], file_content = Some ''# old'', file_writable = False\<rparr>"
  have e1: "fst (create_table ?m ''t'' [?a, ?b])
      = Inl (RuntimeError ''Table can have at most one primary key'')"
    by (simp add: create_table_def table_exists_def)
  have r1: "create_table_rejects ?m ''t'' [?a, ?b]"
    by (simp add: create_table_rejects_def)
  have e2: "fst (create_table ?u ''t'' [?a])
      = Inl (RuntimeError ''Cannot open metadata file for writing'')"
    by (simp add: create_table_def table_exists_def save_metadata_def)
  have r2: "\<not> create_table_rejects ?u ''t'' [?a]"
    by (simp add: create_table_rejects_def table_exists_def)
  from create_table_error_state [OF e1] r1 have "snd (create_table ?m ''t'' [?a, ?b]) = ?m"
    by blast
  with e1 have "create_table ?m ''t'' [?a, ?b]
      = (Inl (RuntimeError ''Table can have at most one primary key''), ?m)"
    by (metis prod.collapse)
  moreover from create_table_error_state [OF e2] r2
  have "tables (snd (create_table ?u ''t'' [?a])) = [(''t'', \<lparr>schema_name = ''t'', columns = [?a]\<rparr>)]"
    "file_content (snd (create_table ?u ''t'' [?a])) = Some ''# old''"
    by simp_all
  ultimately show ?thesis by simp
qed

text \<open>
  C10 as claimed covers every error. On a catalog whose metadata file cannot be opened
  for writing, a valid \<open>create_table\<close> raises the error of \<^verbatim>\<open>save_metadata\<close> after the
  schema was put into the registry: the table exists afterwards and did not before.
\<close>

theorem create_table_error_registry_counterexample:
  "fst (create_table \<lparr>tables = [], file_content = None, file_writable = False\<rparr> ''t''
       [\<lparr>col_name = ''a'', col_type = DT_INTEGER, varchar_length = 0,
         is_primary_key = True, is_not_null = False\<rparr>])
     = Inl (RuntimeError ''Cannot open metadata file for writing'')
   \<and> \<not> table_exists \<lparr>tables = [], file_content = None, file_writable = False\<rparr> ''t''
   \<and> table_exists (snd (create_table \<lparr>tables = [], file_content = None, file_writable = False\<rparr> ''t''
       [\<lparr>col_name = ''a'', col_type = DT_INTEGER, varchar_length = 0,
         is_primary_key = True, is_not_null = False\<rparr>])) ''t''"
  by (simp add: table_exists_def create_table_def save_metadata_def)

section \<open>A catalog to try the functions on\<close>

text \<open>
  The catalog that holds the one table
  \<open>users (id INTEGER PRIMARY KEY, name VARCHAR(5) NOT NULL)\<close>.
\<close>

definition users_catalog :: MetadataManager where
  "users_catalog =
     \<lparr>tables = [(''users'', \<lparr>schema_name = ''users'', columns =
         [\<lparr>col_name = ''id'', col_type = DT_INTEGER, varchar_length = 0,
           is_primary_key = True, is_not_null = False\<rparr>,
          \<lparr>col_name = ''name'', col_type = DT_VARCHAR, varchar_length = 5,
           is_primary_key = False, is_not_null = True\<rparr>]\<rparr>)],
      file_content = None, file_writable = True\<rparr>"

section \<open>Validation of the values of an INSERT\<close>

text \<open>
  A value holds the alternative of its column's declared type: \<^verbatim>\<open>int\<close> for INTEGER,
  \<^verbatim>\<open>std::string\<close> for VARCHAR, \<^verbatim>\<open>bool\<close> for BOOLEAN.
\<close>

fun holds_type :: "DataType \<Rightarrow> Value \<Rightarrow> bool" where
  "holds_type DT_INTEGER (VInt i) = True"
| "holds_type DT_VARCHAR (VString s) = True"
| "holds_type DT_BOOLEAN (VBool b) = True"
| "holds_type t v = False"

text \<open>A string value in a VARCHAR column that is longer than the column allows.\<close>

fun too_long :: "Column \<Rightarrow> Value \<Rightarrow> bool" where
  "too_long c (VString s) = (col_type c = DT_VARCHAR \<and> sint (varchar_length c) < int (length s))"
| "too_long c v = False"

lemma sint_length_cast:
  "n < 2 ^ 31 \<Longrightarrow> sint (word_of_nat n :: 32 word) = int n"
proof -
  assume n: "n < 2 ^ 31"
  have "sint (word_of_int (int n) :: 32 word) = int n"
    unfolding sint_sbintrunc'
    by (rule signed_take_bit_int_eq_self) (use n in auto)
  then show ?thesis by simp
qed

lemma validate_insert_loop_Inr_iff:
  "length cols = length vals \<Longrightarrow> \<forall>s. VString s \<in> set vals \<longrightarrow> length s < 2 ^ 31 \<Longrightarrow>
     (validate_insert_loop (zip cols vals) = Inr ()) =
       (\<forall>(c, v) \<in> set (zip cols vals). holds_type (col_type c) v \<and> \<not> too_long c v)"
proof (induction cols vals rule: list_induct2)
  case Nil
  then show ?case by simp
next
  case (Cons c cols v vals)
  then have ih: "(validate_insert_loop (zip cols vals) = Inr ()) =
       (\<forall>(c, v) \<in> set (zip cols vals). holds_type (col_type c) v \<and> \<not> too_long c v)"
    by simp
  show ?case
  proof (cases v)
    case (VInt i)
    with ih show ?thesis by (cases "col_type c") auto
  next
    case (VString s)
    with Cons.prems have "length s < 2 ^ 31" by simp
    then have "(varchar_length c <s (word_of_nat (length s) :: 32 word))
        = (sint (varchar_length c) < int (length s))"
      by (simp add: word_sless_alt sint_length_cast)
    with VString ih show ?thesis by (cases "col_type c") auto
  next
    case (VBool b)
    with ih show ?thesis by (cases "col_type c") auto
  qed
qed

lemma validate_insert_loop_not_null:
  "length cols = length vals \<Longrightarrow>
     validate_insert_loop (zip (map (\<lambda>c. c\<lparr>is_not_null := g c\<rparr>) cols) vals)
       = validate_insert_loop (zip cols vals)"
proof (induction cols vals rule: list_induct2)
  case Nil
  then show ?case by simp
next
  case (Cons c cols v vals)
  then show ?case
    by (cases "col_type c"; cases v) simp_all
qed

text \<open>
  C4 (amended). For a table that is not registered, \<open>validate_insert_values\<close> raises. For a
  registered table and values whose strings are shorter than \<open>2^31\<close> characters, it raises
  if and only if the number of values differs from the number of columns, or some value
  does not hold the alternative of its column's type, or some string is longer than the
  length of its VARCHAR column. Setting the NOT NULL flags of the columns to anything
  else leaves the outcome as it is.
\<close>

theorem validate_insert_values_raises_iff:
  "(get_table_schema m table_name = None \<longrightarrow> validate_insert_values m table_name vals \<noteq> Inr ())
   \<and> (get_table_schema m table_name = Some schema
        \<and> (\<forall>s. VString s \<in> set vals \<longrightarrow> length s < 2 ^ 31) \<longrightarrow>
        (validate_insert_values m table_name vals \<noteq> Inr ()) =
          (length vals \<noteq> length (columns schema)
           \<or> (\<exists>(c, v) \<in> set (zip (columns schema) vals).
                \<not> holds_type (col_type c) v \<or> too_long c v)))
   \<and> validate_insert_values
        (m\<lparr>tables := map (\<lambda>(k, s). (k, s\<lparr>columns := map (\<lambda>c. c\<lparr>is_not_null := g c\<rparr>) (columns s)\<rparr>))
                        (tables m)\<rparr>) table_name vals
      = validate_insert_values m table_name vals"
proof (intro conjI impI)
  assume "get_table_schema m table_name = None"
  then show "validate_insert_values m table_name vals \<noteq> Inr ()"
    by (simp add: validate_insert_values_def)
next
  assume h: "get_table_schema m table_name = Some schema
        \<and> (\<forall>s. VString s \<in> set vals \<longrightarrow> length s < 2 ^ 31)"
  show "(validate_insert_values m table_name vals \<noteq> Inr ()) =
          (length vals \<noteq> length (columns schema)
           \<or> (\<exists>(c, v) \<in> set (zip (columns schema) vals).
                \<not> holds_type (col_type c) v \<or> too_long c v))"
  proof (cases "length vals = length (columns schema)")
    case True
    from validate_insert_loop_Inr_iff [of "columns schema" vals] True h
    show ?thesis by (auto simp: validate_insert_values_def)
  next
    case False
    with h show ?thesis by (simp add: validate_insert_values_def)
  qed
next
  let ?f = "\<lambda>s. s\<lparr>columns := map (\<lambda>c. c\<lparr>is_not_null := g c\<rparr>) (columns s)\<rparr>"
  have m: "map_of (map (\<lambda>(k, s). (k, ?f s)) (tables m)) table_name
      = map_option ?f (map_of (tables m) table_name)"
    by (simp add: map_of_map)
  show "validate_insert_values
        (m\<lparr>tables := map (\<lambda>(k, s). (k, ?f s)) (tables m)\<rparr>) table_name vals
      = validate_insert_values m table_name vals"
  proof (cases "map_of (tables m) table_name")
    case None
    with m show ?thesis by (simp add: validate_insert_values_def get_table_schema_def)
  next
    case (Some schema)
    with m validate_insert_loop_not_null [of "columns schema" vals g] show ?thesis
      by (auto simp: validate_insert_values_def get_table_schema_def)
  qed
qed

text \<open>
  On the catalog with the table \<open>users\<close>: the row \<open>(1, 'Alice')\<close> passes, a row with a
  longer name and a row with a boolean for the name are refused, a row with one value
  is refused, and a table that is not registered is refused.
\<close>

theorem validate_insert_values_raises_iff_witness:
  "validate_insert_values users_catalog ''users'' [VInt 1, VString ''Alice''] = Inr ()
   \<and> validate_insert_values users_catalog ''users'' [VInt 1, VString ''Robert''] \<noteq> Inr ()
   \<and> validate_insert_values users_catalog ''users'' [VInt 1, VBool True] \<noteq> Inr ()
   \<and> validate_insert_values users_catalog ''users'' [VInt 1] \<noteq> Inr ()
   \<and> validate_insert_values users_catalog ''orders'' [VInt 1] \<noteq> Inr ()"
proof -
  let ?s = "\<lparr>schema_name = ''users'', columns =
         [\<lparr>col_name = ''id'', col_type = DT_INTEGER, varchar_length = 0,
           is_primary_key = True, is_not_null = False\<rparr>,
          \<lparr>col_name = ''name'', col_type = DT_VARCHAR, varchar_length = 5,
           is_primary_key = False, is_not_null = True\<rparr>]\<rparr>"
  have u: "get_table_schema users_catalog ''users'' = Some ?s"
    by (simp add: users_catalog_def get_table_schema_def)
  have o: "get_table_schema users_catalog ''orders'' = None"
    by (simp add: users_catalog_def get_table_schema_def)
  note t = validate_insert_values_raises_iff [where m = users_catalog and g = is_not_null]
  from t [of "''users''" "[VInt 1, VString ''Alice'']" ?s] u
  have 1: "validate_insert_values users_catalog ''users'' [VInt 1, VString ''Alice''] = Inr ()"
    by simp
  from t [of "''users''" "[VInt 1, VString ''Robert'']" ?s] u
  have 2: "validate_insert_values users_catalog ''users'' [VInt 1, VString ''Robert''] \<noteq> Inr ()"
    by simp
  from t [of "''users''" "[VInt 1, VBool True]" ?s] u
  have 3: "validate_insert_values users_catalog ''users'' [VInt 1, VBool True] \<noteq> Inr ()"
    by simp
  from t [of "''users''" "[VInt 1]" ?s] u
  have 4: "validate_insert_values users_catalog ''users'' [VInt 1] \<noteq> Inr ()"
    by simp
  from t [of "''orders''" "[VInt 1]" ?s] o
  have 5: "validate_insert_values users_catalog ''orders'' [VInt 1] \<noteq> Inr ()"
    by simp
  from 1 2 3 4 5 show ?thesis by simp
qed

text \<open>
  C4 as claimed has three causes of an error and no other. For a table that is not in the
  registry the function raises although no value is too many, of a wrong variant or too
  long (\<open>get_columns\<close> answers no column for such a table). And a string of \<open>2^31\<close>
  characters passes a VARCHAR(5) column: its length, cast to \<^verbatim>\<open>int\<close>, is negative.
\<close>

theorem validate_insert_values_counterexample:
  "get_columns users_catalog ''orders'' = []
   \<and> validate_insert_values users_catalog ''orders'' []
       = Inl (RuntimeError ''Table 'orders' does not exist'')
   \<and> too_long \<lparr>col_name = ''name'', col_type = DT_VARCHAR, varchar_length = 5,
           is_primary_key = False, is_not_null = True\<rparr> (VString (replicate (2 ^ 31) CHR ''x''))
   \<and> validate_insert_values users_catalog ''users''
        [VInt 1, VString (replicate (2 ^ 31) CHR ''x'')] = Inr ()"
  by (simp add: users_catalog_def get_columns_def get_table_schema_def
      validate_insert_values_def word_sless_alt)

section \<open>Rows read from a table file\<close>

lemma deserialize_value_holds_type:
  "deserialize_value s t = Inr v \<Longrightarrow> holds_type t v"
  by (cases t) (auto simp: deserialize_value_def split: sum.splits)

lemma deserialize_row_loop_typed:
  "length ss = length cols \<Longrightarrow> deserialize_row_loop (zip ss cols) = Inr row \<Longrightarrow>
     list_all2 (\<lambda>v c. holds_type (col_type c) v) row cols"
proof (induction ss cols arbitrary: row rule: list_induct2)
  case Nil
  then show ?case by simp
next
  case (Cons s ss c cols)
  from Cons.prems obtain v row' where
    v: "deserialize_value s (col_type c) = Inr v"
    and r: "deserialize_row_loop (zip ss cols) = Inr row'"
    and row: "row = v # row'"
    by (auto split: sum.splits)
  from Cons.IH [OF r] deserialize_value_holds_type [OF v] row show ?case by simp
qed

lemma deserialize_row_typed:
  "deserialize_row m ts row_str = Inr row \<Longrightarrow>
     list_all2 (\<lambda>v c. holds_type (col_type c) v) row (get_columns m (tbl_name ts))"
  unfolding deserialize_row_def Let_def
  by (auto split: prod.splits if_splits intro!: deserialize_row_loop_typed)

lemma select_all_loop_typed:
  "row \<in> set (select_all_loop m ts ls) \<Longrightarrow>
     list_all2 (\<lambda>v c. holds_type (col_type c) v) row (get_columns m (tbl_name ts))"
proof (induction ls)
  case Nil
  then show ?case by simp
next
  case (Cons l ls)
  then show ?case
    by (auto split: if_splits sum.splits dest: deserialize_row_typed)
qed

text \<open>
  C9. Every row of the list \<open>select_all\<close> returns has as many values as the schema of the
  bound table has columns, and at each position the value holds the alternative of the
  column's declared type.
\<close>

theorem select_all_rows_typed:
  "select_all m ts = Inr rows \<Longrightarrow>
     \<forall>row \<in> set rows.
       length row = length (get_columns m (tbl_name ts))
       \<and> list_all2 (\<lambda>v c. holds_type (col_type c) v) row (get_columns m (tbl_name ts))"
proof
  fix row
  assume s: "select_all m ts = Inr rows" and r: "row \<in> set rows"
  then obtain content where "rows = select_all_loop m ts (file_lines [] content)"
    by (auto simp: select_all_def split: option.splits)
  with r have "list_all2 (\<lambda>v c. holds_type (col_type c) v) row (get_columns m (tbl_name ts))"
    using select_all_loop_typed by blast
  then show "length row = length (get_columns m (tbl_name ts))
       \<and> list_all2 (\<lambda>v c. holds_type (col_type c) v) row (get_columns m (tbl_name ts))"
    by (simp add: list_all2_lengthD)
qed

text \<open>
  A file of the table \<open>users\<close> with its header comment, a well-formed line, a blank line,
  a line with three fields, and a line whose first field is no number: \<open>select_all\<close>
  returns the one well-formed row, and it has the schema's arity and types.
\<close>

definition users_storage :: TableStorage where
  "users_storage =
     \<lparr>tbl_name = ''users'', tbl_file_path = ''data/users.tbl'',
      data_file = Some (''# Table data for users'' @ [CHR 0x0A]
                        @ ''1|Alice'' @ [CHR 0x0A]
                        @ [CHR 0x0A]
                        @ ''2|Bob|1'' @ [CHR 0x0A]
                        @ ''x|Carol'' @ [CHR 0x0A]),
      data_file_writable = True\<rparr>"

lemma stoi_examples:
  "stoi ''1'' = Inr 1" "stoi ''x'' = Inl InvalidArgument"
  by (simp_all add: stoi_def c_str_def isspace_def isdigit_def digits_value_def digit_val_def)

lemma users_columns:
  "get_columns users_catalog ''users'' =
     [\<lparr>col_name = ''id'', col_type = DT_INTEGER, varchar_length = 0,
       is_primary_key = True, is_not_null = False\<rparr>,
      \<lparr>col_name = ''name'', col_type = DT_VARCHAR, varchar_length = 5,
       is_primary_key = False, is_not_null = True\<rparr>]"
  by (simp add: users_catalog_def get_columns_def get_table_schema_def)

lemma users_select_all:
  "select_all users_catalog users_storage = Inr [[VInt 1, VString ''Alice'']]"
  by (simp add: select_all_def users_storage_def deserialize_row_def users_columns
      deserialize_value_def stoi_examples backslash_def)

theorem select_all_rows_typed_witness:
  "select_all users_catalog users_storage = Inr [[VInt 1, VString ''Alice'']]
   \<and> length [VInt 1, VString ''Alice''] = length (get_columns users_catalog ''users'')
   \<and> list_all2 (\<lambda>v c. holds_type (col_type c) v) [VInt 1, VString ''Alice'']
        (get_columns users_catalog ''users'')"
proof -
  have n: "tbl_name users_storage = ''users''" by (simp add: users_storage_def)
  from select_all_rows_typed [OF users_select_all]
  have "length [VInt 1, VString ''Alice''] = length (get_columns users_catalog ''users'')
      \<and> list_all2 (\<lambda>v c. holds_type (col_type c) v) [VInt 1, VString ''Alice'']
        (get_columns users_catalog ''users'')"
    unfolding n by simp
  with users_select_all show ?thesis by simp
qed

section \<open>Value comparison in a select\<close>

text \<open>
  The index \<^verbatim>\<open>get_column_index\<close> returns for a name is the position of the column
  \<^verbatim>\<open>get_column\<close> returns for it.
\<close>

lemma get_column_index_loop_find:
  "find (\<lambda>column. col_name column = n) cols = Some c \<Longrightarrow>
     \<exists>j < length cols. get_column_index_loop i cols n = word_of_nat (i + j) \<and> cols ! j = c"
proof (induction cols arbitrary: i)
  case Nil
  then show ?case by simp
next
  case (Cons a cols)
  show ?case
  proof (cases "col_name a = n")
    case True
    with Cons.prems have "a = c" by simp
    with True show ?thesis by (intro exI [of _ 0]) simp
  next
    case False
    with Cons.prems have "find (\<lambda>column. col_name column = n) cols = Some c" by simp
    from Cons.IH [OF this, of "Suc i"] obtain j where
      "j < length cols" "get_column_index_loop (Suc i) cols n = word_of_nat (Suc i + j)"
      "cols ! j = c" by blast
    with False show ?thesis by (intro exI [of _ "Suc j"]) simp
  qed
qed

lemma unat_index_cast:
  "j < 2 ^ 31 \<Longrightarrow> unat (word_of_nat j :: 32 word) = j"
  by (simp add: unat_of_nat)

lemma holds_type_index:
  "holds_type t v \<Longrightarrow> holds_type t w \<Longrightarrow> index v = index w"
  by (cases t; cases v; cases w) simp_all

lemma validate_where_condition_Inr:
  "validate_where_condition m t c = Inr u \<Longrightarrow>
     \<exists>col. get_column m t (column_name c) = Some col \<and> holds_type (col_type col) (cond_value c)"
  unfolding validate_where_condition_def Let_def
  by (auto split: option.splits DataType.splits Value.splits if_splits)

lemma validate_where_condition_mismatch:
  "get_column m t (column_name c) = Some col \<Longrightarrow> \<not> holds_type (col_type col) (cond_value c) \<Longrightarrow>
     validate_where_condition m t c
       = Inl (RuntimeError (''Type mismatch for column '' @ [CHR 0x27] @ column_name c @ [CHR 0x27]))"
  unfolding validate_where_condition_def Let_def
  by (cases "col_type col"; cases "cond_value c") simp_all

lemma evaluate_condition_typed:
  assumes col: "get_column m (tbl_name ts) (column_name c) = Some col"
    and ty: "holds_type (col_type col) (cond_value c)"
    and small: "length (get_columns m (tbl_name ts)) < 2 ^ 31"
  shows "\<exists>i. \<forall>row.
           list_all2 (\<lambda>v k. holds_type (col_type k) v) row (get_columns m (tbl_name ts)) \<longrightarrow>
             i < length row \<and> index (row ! i) = index (cond_value c)
             \<and> evaluate_condition m ts row c
                 = compare_values (row ! i) (cond_value c) (operator_type c)"
proof -
  from col obtain schema where
    s: "get_table_schema m (tbl_name ts) = Some schema"
    and f: "find (\<lambda>column. col_name column = column_name c) (columns schema) = Some col"
    by (auto simp: get_column_def split: option.splits)
  from get_column_index_loop_find [OF f, of 0] obtain j where
    j: "j < length (columns schema)"
    and ix: "get_column_index_loop 0 (columns schema) (column_name c) = word_of_nat j"
    and cj: "columns schema ! j = col" by auto
  from s have cols: "get_columns m (tbl_name ts) = columns schema"
    by (simp add: get_columns_def)
  from s ix have gi: "get_column_index m (tbl_name ts) (column_name c) = word_of_nat j"
    by (simp add: get_column_index_def)
  from small cols j have j31: "j < 2 ^ 31" by simp
  show ?thesis
  proof (intro exI [of _ j] allI impI)
    fix row
    assume t: "list_all2 (\<lambda>v k. holds_type (col_type k) v) row (get_columns m (tbl_name ts))"
    then have len: "length row = length (columns schema)"
      using cols by (simp add: list_all2_lengthD)
    with j have jr: "j < length row" by simp
    from small cols len have r31: "length row < 2 ^ 31" by simp
    from t cols j cj have "holds_type (col_type col) (row ! j)"
      by (auto simp: list_all2_conv_all_nth)
    then have ixs: "index (row ! j) = index (cond_value c)"
      using ty by (rule holds_type_index)
    have "\<not> (word_of_nat j :: 32 word) <s 0"
      using sint_length_cast [OF j31] by (simp add: word_sless_alt)
    moreover have "\<not> (word_of_nat (length row) :: 32 word) \<le>s word_of_nat j"
      using sint_length_cast [OF j31] sint_length_cast [OF r31] jr by (simp add: word_sle_eq)
    ultimately have "evaluate_condition m ts row c
        = compare_values (row ! j) (cond_value c) (operator_type c)"
      using gi unat_index_cast [OF j31] by (simp add: evaluate_condition_def)
    with jr ixs show "j < length row \<and> index (row ! j) = index (cond_value c)
             \<and> evaluate_condition m ts row c
                 = compare_values (row ! j) (cond_value c) (operator_type c)" by simp
  qed
qed

text \<open>
  Two conditions on the table \<open>users\<close>: \<open>id = 1\<close>, and \<open>id != 'a'\<close>, whose value is a
  string where the column is an INTEGER.
\<close>

definition id_is_one :: WhereCondition where
  "id_is_one = \<lparr>column_name = ''id'', operator_type = EQUALS, cond_value = VInt 1\<rparr>"

definition id_not_text :: WhereCondition where
  "id_not_text = \<lparr>column_name = ''id'', operator_type = NOT_EQUALS, cond_value = VString ''a''\<rparr>"

lemma users_get_column_id:
  "get_column users_catalog ''users'' ''id''
     = Some \<lparr>col_name = ''id'', col_type = DT_INTEGER, varchar_length = 0,
              is_primary_key = True, is_not_null = False\<rparr>"
  by (simp add: get_column_def get_table_schema_def users_catalog_def)

lemma users_select_where_id:
  "select_where users_catalog users_storage id_is_one = Inr [[VInt 1, VString ''Alice'']]"
proof -
  have n: "tbl_name users_storage = ''users''" by (simp add: users_storage_def)
  have v: "validate_where_condition users_catalog ''users'' id_is_one = Inr ()"
    by (simp add: validate_where_condition_def users_get_column_id id_is_one_def)
  have i: "get_column_index users_catalog ''users'' ''id'' = 0"
    by (simp add: get_column_index_def get_table_schema_def users_catalog_def)
  have e: "evaluate_condition users_catalog users_storage [VInt 1, VString ''Alice''] id_is_one"
    by (simp add: evaluate_condition_def n i id_is_one_def variant_eq_def word_sle_eq)
  show ?thesis
    by (simp add: select_where_def n v users_select_all e)
qed

text \<open>
  C2, as the code has it. For two values of different alternatives \<open>compare_values\<close>
  raises nothing and answers by the order of the alternatives (integer, string, boolean):
  false under \<open>=\<close>, true under \<open>!=\<close>, and under \<open><\<close>, \<open><=\<close>, \<open>>\<close>, \<open>>=\<close> what the order
  of the two indices says. No select compares such a pair. When the value of the condition
  does not hold the alternative of the column's type, \<open>select_where\<close> raises the error
  \<open>Type mismatch for column\<close> of \<^verbatim>\<open>validate_where_condition\<close>, before the file is read. When
  \<open>select_where\<close> returns, on a table of fewer than \<open>2^31\<close> columns, then in every row read
  from the file the value at the condition's column holds the same alternative as the
  value of the condition, and \<open>evaluate_condition\<close> is \<open>compare_values\<close> on these two.
\<close>

theorem compare_values_in_select:
  "(index l \<noteq> index r \<longrightarrow>
      compare_values l r EQUALS = False
      \<and> compare_values l r NOT_EQUALS = True
      \<and> compare_values l r LESS_THAN = (index l < index r)
      \<and> compare_values l r LESS_EQUAL = (index l < index r)
      \<and> compare_values l r GREATER_THAN = (index r < index l)
      \<and> compare_values l r GREATER_EQUAL = (index r < index l))
   \<and> (get_column m (tbl_name ts) (column_name c) = Some col
        \<and> \<not> holds_type (col_type col) (cond_value c) \<longrightarrow>
      select_where m ts c
        = Inl (RuntimeError (''Type mismatch for column '' @ [CHR 0x27] @ column_name c
                             @ [CHR 0x27])))
   \<and> (select_where m ts c = Inr rows \<and> length (get_columns m (tbl_name ts)) < 2 ^ 31 \<longrightarrow>
      (\<exists>all_rows i.
          select_all m ts = Inr all_rows
          \<and> rows = filter (\<lambda>row. evaluate_condition m ts row c) all_rows
          \<and> (\<forall>row \<in> set all_rows.
                i < length row \<and> index (row ! i) = index (cond_value c)
                \<and> evaluate_condition m ts row c
                    = compare_values (row ! i) (cond_value c) (operator_type c))))"
proof (intro conjI impI)
  assume "index l \<noteq> index r"
  then show "compare_values l r EQUALS = False"
    "compare_values l r NOT_EQUALS = True"
    "compare_values l r LESS_THAN = (index l < index r)"
    "compare_values l r LESS_EQUAL = (index l < index r)"
    "compare_values l r GREATER_THAN = (index r < index l)"
    "compare_values l r GREATER_EQUAL = (index r < index l)"
    by (cases l; cases r; simp add: variant_eq_def)+
next
  assume "get_column m (tbl_name ts) (column_name c) = Some col
        \<and> \<not> holds_type (col_type col) (cond_value c)"
  then show "select_where m ts c
        = Inl (RuntimeError (''Type mismatch for column '' @ [CHR 0x27] @ column_name c
                             @ [CHR 0x27]))"
    by (simp add: select_where_def validate_where_condition_mismatch)
next
  assume a: "select_where m ts c = Inr rows \<and> length (get_columns m (tbl_name ts)) < 2 ^ 31"
  then obtain u all_rows where
    v: "validate_where_condition m (tbl_name ts) c = Inr u"
    and s: "select_all m ts = Inr all_rows"
    and r: "rows = filter (\<lambda>row. evaluate_condition m ts row c) all_rows"
    by (auto simp: select_where_def split: sum.splits)
  from validate_where_condition_Inr [OF v] obtain col' where
    col: "get_column m (tbl_name ts) (column_name c) = Some col'"
    and ty: "holds_type (col_type col') (cond_value c)" by blast
  from a have small: "length (get_columns m (tbl_name ts)) < 2 ^ 31" by simp
  from evaluate_condition_typed [OF col ty small] obtain i where
    i: "\<And>row. list_all2 (\<lambda>v k. holds_type (col_type k) v) row (get_columns m (tbl_name ts)) \<Longrightarrow>
             i < length row \<and> index (row ! i) = index (cond_value c)
             \<and> evaluate_condition m ts row c
                 = compare_values (row ! i) (cond_value c) (operator_type c)" by blast
  from s obtain content where "all_rows = select_all_loop m ts (file_lines [] content)"
    by (auto simp: select_all_def split: option.splits)
  then have "\<forall>row \<in> set all_rows.
      list_all2 (\<lambda>v k. holds_type (col_type k) v) row (get_columns m (tbl_name ts))"
    using select_all_loop_typed by blast
  with i have "\<forall>row \<in> set all_rows.
                i < length row \<and> index (row ! i) = index (cond_value c)
                \<and> evaluate_condition m ts row c
                    = compare_values (row ! i) (cond_value c) (operator_type c)" by blast
  with s r show "\<exists>all_rows i.
          select_all m ts = Inr all_rows
          \<and> rows = filter (\<lambda>row. evaluate_condition m ts row c) all_rows
          \<and> (\<forall>row \<in> set all_rows.
                i < length row \<and> index (row ! i) = index (cond_value c)
                \<and> evaluate_condition m ts row c
                    = compare_values (row ! i) (cond_value c) (operator_type c))" by blast
qed

text \<open>
  C2 as claimed has \<open>compare_values\<close> answer false for every pair of values of different
  variants, under every operator, and the row store report the condition false rather than
  an error. For an integer and a string the function answers true under \<open>!=\<close>, \<open><\<close> and
  \<open><=\<close> (and under \<open>>\<close>, \<open>>=\<close> with the sides exchanged); and the select
  \<open>id != 'a'\<close> on \<open>users\<close> ends with the validation error.
\<close>

theorem compare_values_mismatch_counterexample:
  "index (VInt 1) \<noteq> index (VString ''a'')
   \<and> compare_values (VInt 1) (VString ''a'') NOT_EQUALS
   \<and> compare_values (VInt 1) (VString ''a'') LESS_THAN
   \<and> compare_values (VInt 1) (VString ''a'') LESS_EQUAL
   \<and> compare_values (VString ''a'') (VInt 1) GREATER_THAN
   \<and> compare_values (VString ''a'') (VInt 1) GREATER_EQUAL
   \<and> select_where users_catalog users_storage id_not_text
       = Inl (RuntimeError (''Type mismatch for column 'id'' @ [CHR 0x27]))"
  by (simp add: variant_eq_def select_where_def validate_where_condition_def
      users_get_column_id users_storage_def id_not_text_def)

text \<open>
  On \<open>users\<close>: an integer and a string under three operators, the select \<open>id != 'a'\<close>
  that is refused, and the select \<open>id = 1\<close>, which compares the integer of the row's
  first position with the integer of the condition.
\<close>

theorem compare_values_in_select_witness:
  "compare_values (VInt 1) (VString ''a'') EQUALS = False
   \<and> compare_values (VInt 1) (VString ''a'') NOT_EQUALS = True
   \<and> compare_values (VString ''a'') (VInt 1) LESS_THAN = False
   \<and> select_where users_catalog users_storage id_not_text
       = Inl (RuntimeError (''Type mismatch for column 'id'' @ [CHR 0x27]))
   \<and> select_where users_catalog users_storage id_is_one = Inr [[VInt 1, VString ''Alice'']]
   \<and> (\<exists>i < 2. index ([VInt 1, VString ''Alice''] ! i) = index (VInt 1)
         \<and> evaluate_condition users_catalog users_storage [VInt 1, VString ''Alice''] id_is_one
             = compare_values ([VInt 1, VString ''Alice''] ! i) (VInt 1) EQUALS)"
proof -
  have n: "tbl_name users_storage = ''users''" by (simp add: users_storage_def)
  have d: "index (VInt 1) \<noteq> index (VString ''a'')" "index (VString ''a'') \<noteq> index (VInt 1)"
    by simp_all
  have b: "get_column users_catalog (tbl_name users_storage) (column_name id_not_text)
        = Some \<lparr>col_name = ''id'', col_type = DT_INTEGER, varchar_length = 0,
                 is_primary_key = True, is_not_null = False\<rparr>
      \<and> \<not> holds_type (col_type \<lparr>col_name = ''id'', col_type = DT_INTEGER, varchar_length = 0,
                 is_primary_key = True, is_not_null = False\<rparr>) (cond_value id_not_text)"
    by (simp add: n users_get_column_id id_not_text_def)
  have s: "select_where users_catalog users_storage id_is_one = Inr [[VInt 1, VString ''Alice'']]
      \<and> length (get_columns users_catalog (tbl_name users_storage)) < 2 ^ 31"
    by (simp add: users_select_where_id n users_columns)
  from compare_values_in_select [of "VInt 1" "VString ''a''"] d
  have p1: "compare_values (VInt 1) (VString ''a'') EQUALS = False"
    "compare_values (VInt 1) (VString ''a'') NOT_EQUALS = True" by blast+
  from compare_values_in_select [of "VString ''a''" "VInt 1"] d
  have p2: "compare_values (VString ''a'') (VInt 1) LESS_THAN = False" by simp
  from compare_values_in_select [where m = users_catalog and ts = users_storage
      and c = id_not_text
      and col = "\<lparr>col_name = ''id'', col_type = DT_INTEGER, varchar_length = 0,
                 is_primary_key = True, is_not_null = False\<rparr>"] b
  have "select_where users_catalog users_storage id_not_text
       = Inl (RuntimeError (''Type mismatch for column '' @ [CHR 0x27]
                            @ column_name id_not_text @ [CHR 0x27]))"
    by blast
  then have p3: "select_where users_catalog users_storage id_not_text
       = Inl (RuntimeError (''Type mismatch for column 'id'' @ [CHR 0x27]))"
    by (simp add: id_not_text_def)
  from compare_values_in_select [where m = users_catalog and ts = users_storage
      and c = id_is_one and rows = "[[VInt 1, VString ''Alice'']]"] s
  obtain all_rows i where
    a: "select_all users_catalog users_storage = Inr all_rows"
    and r: "\<forall>row \<in> set all_rows.
                i < length row \<and> index (row ! i) = index (cond_value id_is_one)
                \<and> evaluate_condition users_catalog users_storage row id_is_one
                    = compare_values (row ! i) (cond_value id_is_one) (operator_type id_is_one)"
    by blast
  from a users_select_all have "all_rows = [[VInt 1, VString ''Alice'']]" by simp
  with r have "i < 2 \<and> index ([VInt 1, VString ''Alice''] ! i) = index (VInt 1)
         \<and> evaluate_condition users_catalog users_storage [VInt 1, VString ''Alice''] id_is_one
             = compare_values ([VInt 1, VString ''Alice''] ! i) (VInt 1) EQUALS"
    by (simp add: id_is_one_def)
  with p1 p2 p3 s show ?thesis by blast
qed

section \<open>Decimal text and \<^verbatim>\<open>std::stoi\<close>\<close>

lemma of_char_digit_char: "d < 10 \<Longrightarrow> (of_char (digit_char d) :: nat) = 48 + d"
  by (simp add: digit_char_def)

lemma isdigit_digit_char: "d < 10 \<Longrightarrow> isdigit (digit_char d)"
  by (simp add: isdigit_def of_char_digit_char)

lemma digit_val_digit_char: "d < 10 \<Longrightarrow> digit_val (digit_char d) = d"
  by (simp add: digit_val_def of_char_digit_char)

lemma isdigit_plain:
  "isdigit c \<Longrightarrow> c \<noteq> CHR 0x00 \<and> \<not> isspace c \<and> c \<noteq> CHR ''-'' \<and> c \<noteq> CHR ''+''
     \<and> c \<noteq> CHR '':'' \<and> c \<noteq> CHR 0x0A \<and> c \<noteq> CHR ''|'' \<and> c \<noteq> CHR 0x5C \<and> c \<noteq> CHR 0x0D"
  by (auto simp: isdigit_def isspace_def)

lemma string_of_nat_digits: "list_all isdigit (string_of_nat n)"
proof (induction n rule: string_of_nat.induct)
  case (1 n)
  show ?case
  proof (cases "n < 10")
    case True
    then show ?thesis by (simp add: string_of_nat.simps [of n] isdigit_digit_char)
  next
    case False
    with 1 have "list_all isdigit (string_of_nat (n div 10))" by simp
    moreover have "isdigit (digit_char (n mod 10))" by (simp add: isdigit_digit_char)
    ultimately show ?thesis using False by (simp add: string_of_nat.simps [of n])
  qed
qed

lemma string_of_nat_not_Nil: "string_of_nat n \<noteq> []"
  by (simp add: string_of_nat.simps [of n])

lemma digits_value_snoc: "digits_value (ds @ [c]) = 10 * digits_value ds + digit_val c"
  by (simp add: digits_value_def)

lemma digits_value_string_of_nat: "digits_value (string_of_nat n) = n"
proof (induction n rule: string_of_nat.induct)
  case (1 n)
  show ?case
  proof (cases "n < 10")
    case True
    then show ?thesis
      by (simp add: string_of_nat.simps [of n] digits_value_def digit_val_digit_char)
  next
    case False
    with 1 have "digits_value (string_of_nat (n div 10)) = n div 10" by simp
    with False show ?thesis
      by (simp add: string_of_nat.simps [of n] digits_value_snoc digit_val_digit_char)
  qed
qed

lemma takeWhile_all: "list_all P xs \<Longrightarrow> takeWhile P xs = xs"
  by (induction xs) auto

lemma dropWhile_none: "xs \<noteq> [] \<Longrightarrow> \<not> P (hd xs) \<Longrightarrow> dropWhile P xs = xs"
  by (cases xs) auto

lemma stoi_digits:
  assumes "ds \<noteq> []" "list_all isdigit ds"
  shows "stoi ds = (if 2 ^ 31 - 1 < int (digits_value ds) then Inl OutOfRange
                    else Inr (word_of_nat (digits_value ds)))"
proof -
  from assms have h: "isdigit (hd ds)" by (cases ds) auto
  from assms(2) have "list_all (\<lambda>c. c \<noteq> CHR 0x00) ds"
    by (induction ds) (auto dest: isdigit_plain)
  then have c: "c_str ds = ds" by (simp add: c_str_def takeWhile_all)
  from h assms(1) have d: "dropWhile isspace ds = ds"
    by (intro dropWhile_none) (auto dest: isdigit_plain)
  from h have s: "hd ds \<noteq> CHR ''-''" "hd ds \<noteq> CHR ''+''" by (auto dest: isdigit_plain)
  have "- (2 ^ 31) \<le> int (digits_value ds)"
    by (rule order_trans [of _ 0]) simp_all
  then show ?thesis
    using assms by (simp add: stoi_def c d s Let_def takeWhile_all not_less)
qed

lemma stoi_minus_digits:
  assumes "ds \<noteq> []" "list_all isdigit ds"
  shows "stoi (CHR ''-'' # ds) = (if - int (digits_value ds) < - (2 ^ 31) then Inl OutOfRange
                    else Inr (word_of_int (- int (digits_value ds))))"
proof -
  from assms(2) have "list_all (\<lambda>c. c \<noteq> CHR 0x00) ds"
    by (induction ds) (auto dest: isdigit_plain)
  then have c: "c_str (CHR ''-'' # ds) = CHR ''-'' # ds" by (simp add: c_str_def takeWhile_all)
  have d: "\<not> isspace CHR ''-''"
    by (simp add: isspace_def)
  have "- int (digits_value ds) \<le> 2 ^ 31 - 1"
    by (rule order_trans [of _ 0]) simp_all
  then show ?thesis
    using assms by (simp add: stoi_def c d Let_def takeWhile_all not_less)
qed

lemma stoi_string_of_nat:
  "n < 2 ^ 31 \<Longrightarrow> stoi (string_of_nat n) = Inr (word_of_nat n)"
  using stoi_digits [OF string_of_nat_not_Nil string_of_nat_digits, of n]
  by (simp add: digits_value_string_of_nat)

lemma stoi_string_of_int:
  assumes "- (2 ^ 31) \<le> i" "i < 2 ^ 31"
  shows "stoi (string_of_int i) = Inr (word_of_int i)"
proof (cases "i < 0")
  case True
  with assms stoi_minus_digits [OF string_of_nat_not_Nil string_of_nat_digits, of "nat (- i)"]
  show ?thesis by (simp add: string_of_int_def digits_value_string_of_nat)
next
  case False
  then have "nat i < 2 ^ 31" using assms by (simp add: nat_less_iff)
  from stoi_string_of_nat [OF this] False show ?thesis
    by (simp add: string_of_int_def)
qed

lemma stoi_string_of_sint: "stoi (string_of_int (sint (w :: 32 word))) = Inr w"
proof -
  have "- (2 ^ 31) \<le> sint w" using sint_ge [of w] by simp
  moreover have "sint w < 2 ^ 31" using sint_less [of w] by simp
  ultimately show ?thesis using stoi_string_of_int [of "sint w"] by simp
qed

section \<open>Writing a row and reading it back\<close>

text \<open>The text \<open>serialize_value\<close> writes for a value under the type of its own alternative.\<close>

fun field_text :: "Value \<Rightarrow> string" where
  "field_text (VInt i) = string_of_int (sint i)"
| "field_text (VString s) = concat (map escape_char s)"
| "field_text (VBool b) = (if b then ''1'' else ''0'')"

lemma serialize_value_field_text:
  "holds_type t v \<Longrightarrow> serialize_value v t = Inr (field_text v)"
  by (cases t; cases v) simp_all

lemma unescape_plain: "c \<noteq> backslash \<Longrightarrow> unescape (c # rest) = c # unescape rest"
  by (cases rest) simp_all

lemma unescape_escape: "unescape (concat (map escape_char s)) = s"
proof (induction s)
  case Nil
  then show ?case by simp
next
  case (Cons c s)
  show ?case
  proof (cases "c = CHR ''|'' \<or> c = backslash \<or> c = CHR 0x0A \<or> c = CHR 0x0D")
    case True
    with Cons show ?thesis by (auto simp: escape_char_def backslash_def)
  next
    case False
    with Cons show ?thesis by (simp add: escape_char_def unescape_plain)
  qed
qed

lemma deserialize_serialized_value:
  "holds_type t v \<Longrightarrow> deserialize_value (field_text v) t = Inr v"
  by (cases t; cases v)
    (simp_all add: deserialize_value_def stoi_string_of_sint unescape_escape)

lemma split_fields_plain:
  "list_all (\<lambda>c. c \<noteq> CHR ''|'' \<and> c \<noteq> backslash) f \<Longrightarrow>
     split_fields vs cur False (f @ rest) = split_fields vs (cur @ f) False rest"
  by (induction f arbitrary: cur) simp_all

lemma split_fields_escaped:
  "split_fields vs cur False (concat (map escape_char s) @ rest)
     = split_fields vs (cur @ concat (map escape_char s)) False rest"
proof (induction s arbitrary: cur)
  case Nil
  then show ?case by simp
next
  case (Cons c s)
  show ?case
  proof (cases "c = CHR ''|'' \<or> c = backslash \<or> c = CHR 0x0A \<or> c = CHR 0x0D")
    case True
    then show ?thesis using Cons [of "cur @ escape_char c"]
      by (auto simp: escape_char_def)
  next
    case False
    then show ?thesis using Cons [of "cur @ escape_char c"]
      by (simp add: escape_char_def)
  qed
qed

lemma string_of_nat_plain:
  "list_all (\<lambda>c. c \<noteq> CHR ''|'' \<and> c \<noteq> backslash) (string_of_nat n)"
  using string_of_nat_digits [of n]
  by (induction "string_of_nat n" arbitrary: n)
    (auto simp: list_all_iff backslash_def dest!: isdigit_plain)

lemma split_fields_field_text:
  "split_fields vs cur False (field_text v @ rest) = split_fields vs (cur @ field_text v) False rest"
proof (cases v)
  case (VInt i)
  have "list_all (\<lambda>c. c \<noteq> CHR ''|'' \<and> c \<noteq> backslash) (string_of_int (sint i))"
    using string_of_nat_plain by (simp add: string_of_int_def backslash_def)
  with VInt show ?thesis by (simp add: split_fields_plain)
next
  case (VString s)
  then show ?thesis by (simp add: split_fields_escaped)
next
  case (VBool b)
  then show ?thesis by (simp add: backslash_def)
qed

lemma split_fields_joined:
  "split_fields vs cur False (concat (map (\<lambda>v. CHR ''|'' # field_text v) row))
     = (vs @ butlast (cur # map field_text row), last (cur # map field_text row))"
proof (induction row arbitrary: vs cur)
  case Nil
  then show ?case by simp
next
  case (Cons v row)
  have "split_fields vs cur False (concat (map (\<lambda>v. CHR ''|'' # field_text v) (v # row)))
      = split_fields (vs @ [cur]) [] False
          (field_text v @ concat (map (\<lambda>v. CHR ''|'' # field_text v) row))"
    by (simp add: backslash_def)
  also have "\<dots> = split_fields (vs @ [cur]) (field_text v) False
          (concat (map (\<lambda>v. CHR ''|'' # field_text v) row))"
    using split_fields_field_text [of "vs @ [cur]" "[]" v] by simp
  also have "\<dots> = ((vs @ [cur]) @ butlast (field_text v # map field_text row),
                   last (field_text v # map field_text row))"
    by (rule Cons.IH)
  finally show ?case by simp
qed

lemma serialize_row_loop_joined:
  "list_all2 (\<lambda>v c. holds_type (col_type c) v) row cols \<Longrightarrow> 0 < i \<Longrightarrow>
     serialize_row_loop oss i (zip row cols)
       = Inr (oss @ concat (map (\<lambda>v. CHR ''|'' # field_text v) row))"
proof (induction row cols arbitrary: oss i rule: list_all2_induct)
  case Nil
  then show ?case by simp
next
  case (Cons v row c cols)
  from Cons.IH [of "Suc i" "oss @ ''|'' @ field_text v"] Cons.hyps(1) Cons.prems
  show ?case by (simp add: serialize_value_field_text)
qed

lemma serialize_row_loop_line:
  "list_all2 (\<lambda>v c. holds_type (col_type c) v) row cols \<Longrightarrow>
     serialize_row_loop [] 0 (zip row cols)
       = Inr (case row of [] \<Rightarrow> []
              | v # vs \<Rightarrow> field_text v @ concat (map (\<lambda>v. CHR ''|'' # field_text v) vs))"
proof (cases row)
  case Nil
  then show ?thesis by simp
next
  case (Cons v vs)
  assume t: "list_all2 (\<lambda>v c. holds_type (col_type c) v) row cols"
  with Cons obtain c cs where c: "cols = c # cs" "holds_type (col_type c) v"
    "list_all2 (\<lambda>v c. holds_type (col_type c) v) vs cs"
    by (auto simp: list_all2_Cons1)
  from serialize_row_loop_joined [OF c(3), of 1 "field_text v"] Cons c show ?thesis
    by (simp add: serialize_value_field_text)
qed

lemma deserialize_row_loop_fields:
  "list_all2 (\<lambda>v c. holds_type (col_type c) v) row cols \<Longrightarrow>
     deserialize_row_loop (zip (map field_text row) cols) = Inr row"
  by (induction row cols rule: list_all2_induct) (simp_all add: deserialize_serialized_value)

lemma field_text_Nil_iff: "field_text v = [] \<longleftrightarrow> v = VString []"
proof (cases v)
  case (VInt i)
  then show ?thesis by (simp add: string_of_int_def string_of_nat_not_Nil)
next
  case (VString s)
  then show ?thesis by (cases s) (simp_all add: escape_char_def)
next
  case (VBool b)
  then show ?thesis by simp
qed

text \<open>
  The round trip of C1 for every row but one: a row whose values hold the alternatives of
  the schema's columns is read back as it was written, unless it is the single empty
  string.
\<close>

lemma row_round_trip:
  assumes t: "list_all2 (\<lambda>v c. holds_type (col_type c) v) row (get_columns m (tbl_name ts))"
    and n: "row \<noteq> [VString []]"
  shows "\<exists>line. serialize_row m ts row = Inr line \<and> deserialize_row m ts line = Inr row"
proof (cases row)
  case Nil
  with t have "get_columns m (tbl_name ts) = []" by simp
  with Nil show ?thesis by (simp add: serialize_row_def deserialize_row_def)
next
  case (Cons v vs)
  let ?line = "field_text v @ concat (map (\<lambda>v. CHR ''|'' # field_text v) vs)"
  from t have len: "length row = length (get_columns m (tbl_name ts))"
    by (rule list_all2_lengthD)
  from serialize_row_loop_line [OF t] Cons len have s: "serialize_row m ts row = Inr ?line"
    by (simp add: serialize_row_def)
  have sp: "split_fields [] [] False ?line
      = (butlast (map field_text row), last (map field_text row))"
    using split_fields_field_text [of "[]" "[]" v]
      split_fields_joined [of "[]" "field_text v" vs] Cons
    by simp
  have ne: "last (map field_text row) \<noteq> [] \<or> butlast (map field_text row) \<noteq> []"
  proof (cases vs)
    case Nil
    with Cons n show ?thesis by (simp add: field_text_Nil_iff)
  next
    case (Cons w ws)
    with \<open>row = v # vs\<close> show ?thesis by simp
  qed
  have ap: "butlast (map field_text row) @ [last (map field_text row)] = map field_text row"
    using Cons by (intro append_butlast_last_id) simp
  have "deserialize_row m ts ?line = Inr row"
    unfolding deserialize_row_def sp using ne ap len deserialize_row_loop_fields [OF t]
    by (auto simp: Let_def)
  with s show ?thesis by blast
qed

text \<open>
  A catalog with the tables \<open>notes (body VARCHAR(5))\<close> and
  \<open>pairs (body VARCHAR(5), more VARCHAR(5))\<close>, and the storage of each with a file that
  holds the header comment.
\<close>

definition notes_catalog :: MetadataManager where
  "notes_catalog =
     \<lparr>tables = [(''notes'', \<lparr>schema_name = ''notes'', columns =
         [\<lparr>col_name = ''body'', col_type = DT_VARCHAR, varchar_length = 5,
           is_primary_key = False, is_not_null = False\<rparr>]\<rparr>),
        (''pairs'', \<lparr>schema_name = ''pairs'', columns =
         [\<lparr>col_name = ''body'', col_type = DT_VARCHAR, varchar_length = 5,
           is_primary_key = False, is_not_null = False\<rparr>,
          \<lparr>col_name = ''more'', col_type = DT_VARCHAR, varchar_length = 5,
           is_primary_key = False, is_not_null = False\<rparr>]\<rparr>)],
      file_content = None, file_writable = True\<rparr>"

definition notes_storage :: TableStorage where
  "notes_storage =
     \<lparr>tbl_name = ''notes'', tbl_file_path = ''data/notes.tbl'',
      data_file = Some (''# Table data for notes'' @ [CHR 0x0A]), data_file_writable = True\<rparr>"

definition pairs_storage :: TableStorage where
  "pairs_storage =
     \<lparr>tbl_name = ''pairs'', tbl_file_path = ''data/pairs.tbl'',
      data_file = Some (''# Table data for pairs'' @ [CHR 0x0A]), data_file_writable = True\<rparr>"

text \<open>
  C1. The claim: every row that fits the schema of the bound table is read back by
  \<open>deserialize_row\<close> from what \<open>serialize_row\<close> wrote. On the table \<open>notes (body VARCHAR(5))\<close>
  the row that holds the empty string fits the schema (\<open>validate_insert_values\<close> accepts
  it) and is written as the empty line, which \<open>deserialize_row\<close> reads as no field at all
  and refuses. After \<open>insert_row\<close> of that row, \<open>select_all\<close> returns no row. The same value
  beside a second column is read back.
\<close>

theorem empty_text_row_not_read_back:
  "validate_insert_values notes_catalog ''notes'' [VString []] = Inr ()
   \<and> serialize_row notes_catalog notes_storage [VString []] = Inr []
   \<and> deserialize_row notes_catalog notes_storage []
       = Inl (RuntimeError ''Row data doesn't match table schema'')
   \<and> fst (insert_row notes_catalog notes_storage [VString []]) = Inr ()
   \<and> select_all notes_catalog (snd (insert_row notes_catalog notes_storage [VString []])) = Inr []
   \<and> serialize_row notes_catalog pairs_storage [VString [], VString []] = Inr ''|''
   \<and> deserialize_row notes_catalog pairs_storage ''|'' = Inr [VString [], VString []]"
  by (simp add: notes_catalog_def notes_storage_def pairs_storage_def validate_insert_values_def
      get_table_schema_def get_columns_def serialize_row_def deserialize_row_def insert_row_def
      select_all_def deserialize_value_def backslash_def word_sless_alt)

text \<open>At this row, reading back what was written does not give the row.\<close>

theorem empty_text_row_not_read_back_witness:
  "(case serialize_row notes_catalog notes_storage [VString []] of
      Inl e \<Rightarrow> Inl e
    | Inr line \<Rightarrow> deserialize_row notes_catalog notes_storage line) \<noteq> Inr [VString []]"
  using empty_text_row_not_read_back by simp

section \<open>Keywords in any letter case\<close>

lemma keyword_spelling:
  "Tokenizer_keywords k = Some ty \<Longrightarrow> k \<noteq> [] \<and> list_all isupper k"
  unfolding Tokenizer_keywords_def
  by (auto simp: isupper_def split: if_splits)

lemma toupper_isupper: "isupper (toupper c) \<Longrightarrow> isalpha c"
  by (cases "islower c") (auto simp: toupper_def isalpha_def)

lemma isalpha_plain:
  "isalpha c \<Longrightarrow> is_alpha c \<and> is_alnum c \<and> \<not> isspace c \<and> c \<noteq> CHR ''-'' \<and> c \<noteq> CHR 0x0A
     \<and> c \<noteq> CHR 0x00"
  by (auto simp: is_alpha_def is_alnum_def isalnum_def isalpha_def isupper_def islower_def
      isspace_def)

lemma skip_whitespace_id: "\<not> isspace (Tokenizer_peek t) \<Longrightarrow> skip_whitespace t = t"
  by (simp add: skip_whitespace.simps [of t])

lemma skip_comment_id: "Tokenizer_peek t \<noteq> CHR ''-'' \<Longrightarrow> skip_comment t = t"
  by (simp add: skip_comment_def)

lemma read_identifier_loop_letters:
  "list_all isalpha s \<Longrightarrow> tz_input t = s \<Longrightarrow>
     read_identifier_loop v t = (v @ s, t\<lparr>tz_input := [], tz_column := tz_column t + int (length s)\<rparr>)"
proof (induction s arbitrary: v t)
  case Nil
  then have "Tokenizer_peek t = CHR 0x00" by (simp add: Tokenizer_peek_def)
  then have "\<not> is_alnum (Tokenizer_peek t)" using is_alnum_not_NUL by auto
  with Nil show ?case by (simp add: read_identifier_loop.simps [of v t])
next
  case (Cons c s)
  from Cons.prems have c: "isalpha c" and s: "list_all isalpha s" by simp_all
  from Cons.prems have p: "Tokenizer_peek t = c" by (simp add: Tokenizer_peek_def)
  from c isalpha_plain [of c] have a: "is_alnum c" "c \<noteq> CHR 0x0A" by simp_all
  from Cons.prems a have adv:
    "Tokenizer_advance t = (c, t\<lparr>tz_input := s, tz_column := tz_column t + 1\<rparr>)"
    by (simp add: Tokenizer_advance_def)
  have "read_identifier_loop v t
      = read_identifier_loop (v @ [c]) (t\<lparr>tz_input := s, tz_column := tz_column t + 1\<rparr>)"
    using p a adv by (simp add: read_identifier_loop.simps [of v t])
  also have "\<dots> = ((v @ [c]) @ s,
      (t\<lparr>tz_input := s, tz_column := tz_column t + 1\<rparr>)
        \<lparr>tz_input := [], tz_column := tz_column (t\<lparr>tz_input := s, tz_column := tz_column t + 1\<rparr>)
            + int (length s)\<rparr>)"
    by (rule Cons.IH [OF s]) simp
  finally show ?case by simp
qed

text \<open>
  A string whose upper-case form, as \<^verbatim>\<open>read_identifier\<close> computes it, is a keyword: the
  tokenizer yields the keyword's token with that upper-case form as its value, at line 1
  and column 1, and then the end-of-input token.
\<close>

lemma tokenize_keyword_spelling:
  "Tokenizer_keywords (map toupper s) = Some ty \<Longrightarrow>
     tokenize s =
       Inr [\<lparr>tok_type = ty, tok_value = map toupper s, tok_line = 1, tok_column = 1\<rparr>,
            \<lparr>tok_type = END_OF_FILE, tok_value = [], tok_line = 1,
             tok_column = 1 + int (length s)\<rparr>]"
proof -
  assume k: "Tokenizer_keywords (map toupper s) = Some ty"
  from keyword_spelling [OF k] have ne: "s \<noteq> []" and up: "list_all isupper (map toupper s)"
    by simp_all
  from up have letters: "list_all isalpha s"
    by (induction s) (auto dest: toupper_isupper)
  from k have ty: "ty \<noteq> END_OF_FILE"
    unfolding Tokenizer_keywords_def by (auto split: if_splits)
  let ?t0 = "new_Tokenizer s"
  let ?t1 = "?t0\<lparr>tz_input := [], tz_column := tz_column ?t0 + int (length s)\<rparr>"
  from ne letters have h: "isalpha (Tokenizer_peek ?t0)"
    by (cases s) (simp_all add: new_Tokenizer_def Tokenizer_peek_def)
  from isalpha_plain [OF h] have sk: "skip_whitespace (skip_comment (skip_whitespace ?t0)) = ?t0"
    by (simp add: skip_whitespace_id skip_comment_id)
  have rd: "read_identifier_loop [] ?t0 = (s, ?t1)"
    using read_identifier_loop_letters [OF letters, of ?t0 "[]"]
    by (simp add: new_Tokenizer_def)
  have n1: "next_token ?t0
      = Inr (\<lparr>tok_type = ty, tok_value = map toupper s, tok_line = 1, tok_column = 1\<rparr>, ?t1)"
    unfolding next_token_def sk Let_def
    using ne h isalpha_plain [OF h] rd k
    by (simp add: read_identifier_def new_Tokenizer_def)
  have p1: "Tokenizer_peek ?t1 = CHR 0x00" by (simp add: Tokenizer_peek_def)
  then have sk1: "skip_whitespace (skip_comment (skip_whitespace ?t1)) = ?t1"
    by (simp add: skip_whitespace_id skip_comment_id isspace_def)
  have n2: "next_token ?t1
      = Inr (\<lparr>tok_type = END_OF_FILE, tok_value = [], tok_line = 1,
               tok_column = 1 + int (length s)\<rparr>, ?t1)"
    unfolding next_token_def sk1 Let_def
    by (simp add: new_Tokenizer_def)
  show ?thesis
    unfolding tokenize_def
    by (simp add: tokenize_loop.simps [of "[]" ?t0] n1 ty
        tokenize_loop.simps [of _ ?t1] n2)
qed

text \<open>
  The letter-case variants of a spelling, by the table of the 26 letters: \<open>s\<close> is a
  variant of \<open>k\<close> when the two have the same length and, at each position, the same
  character or the same letter in the other case.
\<close>

definition letter_cases :: "(char \<times> char) list" where
  "letter_cases = zip ''ABCDEFGHIJKLMNOPQRSTUVWXYZ'' ''abcdefghijklmnopqrstuvwxyz''"

definition same_letter :: "char \<Rightarrow> char \<Rightarrow> bool" where
  "same_letter a b = (a = b \<or> (a, b) \<in> set letter_cases \<or> (b, a) \<in> set letter_cases)"

definition case_variant :: "string \<Rightarrow> string \<Rightarrow> bool" where
  "case_variant k s = list_all2 same_letter k s"

lemma letter_cases_toupper:
  "list_all (\<lambda>(u, l). toupper l = u \<and> \<not> isupper l) letter_cases"
  by code_simp

lemma same_letter_toupper:
  assumes "same_letter k c" and "isupper k"
  shows "toupper c = k"
proof -
  from letter_cases_toupper have
    t: "\<And>u l. (u, l) \<in> set letter_cases \<Longrightarrow> toupper l = u \<and> \<not> isupper l"
    by (auto simp: list_all_iff)
  from assms(1) consider "k = c" | "(k, c) \<in> set letter_cases" | "(c, k) \<in> set letter_cases"
    by (auto simp: same_letter_def)
  then show ?thesis
  proof cases
    case 1
    with assms(2) show ?thesis by (simp add: toupper_def isupper_def islower_def)
  next
    case 2
    with t show ?thesis by blast
  next
    case 3
    with t assms(2) show ?thesis by blast
  qed
qed

lemma case_variant_toupper:
  "case_variant k s \<Longrightarrow> list_all isupper k \<Longrightarrow> map toupper s = k"
  unfolding case_variant_def
  by (induction k s rule: list_all2_induct) (simp_all add: same_letter_toupper)

text \<open>
  C8. For every keyword \<open>k\<close> of the lexer's keyword set and every letter-case variant \<open>s\<close>
  of its spelling, the tokenizer yields the keyword's token, with the type of \<open>k\<close> and the
  upper-case spelling \<open>k\<close> as its value, at line 1 and column 1, and then the end-of-input
  token. The result does not depend on \<open>s\<close>: all variants of a keyword lex identically.
\<close>

theorem keyword_case_insensitive:
  "Tokenizer_keywords k = Some ty \<Longrightarrow> case_variant k s \<Longrightarrow>
     tokenize s =
       Inr [\<lparr>tok_type = ty, tok_value = k, tok_line = 1, tok_column = 1\<rparr>,
            \<lparr>tok_type = END_OF_FILE, tok_value = [], tok_line = 1,
             tok_column = 1 + int (length k)\<rparr>]"
proof -
  assume k: "Tokenizer_keywords k = Some ty" and v: "case_variant k s"
  from keyword_spelling [OF k] have "list_all isupper k" by simp
  from case_variant_toupper [OF v this] have u: "map toupper s = k" .
  then have "length k = length s" by auto
  with tokenize_keyword_spelling [of s ty] k u show ?thesis by simp
qed

text \<open>
  The three spellings of \<open>SELECT\<close> that the specification names lex identically, and
  \<open>Create\<close> gives the token of \<open>CREATE\<close>.
\<close>

theorem keyword_case_insensitive_witness:
  "tokenize ''select'' =
     Inr [\<lparr>tok_type = SELECT, tok_value = ''SELECT'', tok_line = 1, tok_column = 1\<rparr>,
          \<lparr>tok_type = END_OF_FILE, tok_value = [], tok_line = 1, tok_column = 7\<rparr>]
   \<and> tokenize ''SELECT'' = tokenize ''select''
   \<and> tokenize ''SeLeCt'' = tokenize ''select''
   \<and> tokenize ''Create'' =
     Inr [\<lparr>tok_type = CREATE, tok_value = ''CREATE'', tok_line = 1, tok_column = 1\<rparr>,
          \<lparr>tok_type = END_OF_FILE, tok_value = [], tok_line = 1, tok_column = 7\<rparr>]"
proof -
  have v: "case_variant ''SELECT'' ''select''" "case_variant ''SELECT'' ''SELECT''"
    "case_variant ''SELECT'' ''SeLeCt''" "case_variant ''CREATE'' ''Create''"
    by (simp_all add: case_variant_def same_letter_def letter_cases_def)
  have k: "Tokenizer_keywords ''SELECT'' = Some SELECT"
    "Tokenizer_keywords ''CREATE'' = Some CREATE"
    by (simp_all add: Tokenizer_keywords_def)
  from keyword_case_insensitive [OF k(1) v(1)] keyword_case_insensitive [OF k(1) v(2)]
    keyword_case_insensitive [OF k(1) v(3)] keyword_case_insensitive [OF k(2) v(4)]
  show ?thesis by simp
qed

section \<open>Saving the catalog and loading it again\<close>





























end
